theory Spec2Isabelle
  imports Complex_Main "HOL-Library.AList"
begin

section \<open>JavaScript values as the dashboard script sees them\<close>

text \<open>
  \<^verbatim>\<open>static/main.js\<close> receives the body of \<^verbatim>\<open>POST /api/check_all\<close> through
  \<^verbatim>\<open>resp.json()\<close>. A parsed JSON text is a primitive (\<^verbatim>\<open>null\<close>, a boolean, a number, a
  string), an array or an object; reading a property that an object does not have gives
  the primitive \<^verbatim>\<open>undefined\<close>. Numbers are kept by their exact value (every finite
  double is a rational); the script only compares them with the literal 95 and prints
  them. An object is the list of its own properties, each key once.
\<close>

datatype prim = Undefined | Null | Bool bool | Num rat | Str string

datatype jsval =
    Prim prim
  | JArr "jsval list"
  | JObj "(string \<times> jsval) list"

abbreviation JUndefined :: jsval where
  "JUndefined \<equiv> Prim Undefined"

abbreviation JNull :: jsval where
  "JNull \<equiv> Prim Null"

abbreviation JBool :: "bool \<Rightarrow> jsval" where
  "JBool b \<equiv> Prim (Bool b)"

abbreviation JNum :: "rat \<Rightarrow> jsval" where
  "JNum n \<equiv> Prim (Num n)"

abbreviation JStr :: "string \<Rightarrow> jsval" where
  "JStr s \<equiv> Prim (Str s)"

datatype exn = TypeError | FetchError | JsonError

text \<open>
  What the script takes from the browser and does not define itself: printing a number
  (\<^verbatim>\<open>Number.prototype.toString\<close>), reading a string as a number (\<^verbatim>\<open>StringToNumber\<close>,
  \<open>None\<close> for \<^verbatim>\<open>NaN\<close>), and \<^verbatim>\<open>new Date(p).toLocaleString()\<close> for a primitive \<open>p\<close>,
  which depends on the locale and the time zone of the browser.
\<close>

record runtime =
  number_to_string :: "rat \<Rightarrow> string"
  string_to_number :: "string \<Rightarrow> rat option"
  date_to_locale_string :: "prim \<Rightarrow> string"

text \<open>
  The steps of the script that can throw return \<open>Inl\<close> of the exception; \<open>and_then\<close>
  runs the next step when the first one has not thrown.
\<close>

definition and_then :: "exn + 'a \<Rightarrow> ('a \<Rightarrow> exn + 'b) \<Rightarrow> exn + 'b" where
  "and_then r f = (case r of Inl e \<Rightarrow> Inl e | Inr x \<Rightarrow> f x)"

text \<open>\<^verbatim>\<open>ToBoolean\<close>: the falsy values are \<^verbatim>\<open>undefined\<close>, \<^verbatim>\<open>null\<close>, \<^verbatim>\<open>false\<close>, \<^verbatim>\<open>0\<close> and \<^verbatim>\<open>''\<close>.\<close>

fun truthy :: "jsval \<Rightarrow> bool" where
  "truthy JUndefined = False"
| "truthy JNull = False"
| "truthy (JBool b) = b"
| "truthy (JNum n) = (n \<noteq> 0)"
| "truthy (JStr s) = (s \<noteq> [])"
| "truthy (JArr xs) = True"
| "truthy (JObj kvs) = True"

text \<open>\<^verbatim>\<open>a || b\<close> is \<^verbatim>\<open>a\<close> when \<^verbatim>\<open>a\<close> is truthy and \<^verbatim>\<open>b\<close> otherwise.\<close>

definition logical_or :: "jsval \<Rightarrow> jsval \<Rightarrow> jsval" where
  "logical_or a b = (if truthy a then a else b)"

text \<open>
  \<^verbatim>\<open>a === b\<close> for a primitive literal \<^verbatim>\<open>b\<close> (the script compares with \<^verbatim>\<open>'down'\<close> and
  \<^verbatim>\<open>null\<close> only): \<^verbatim>\<open>a\<close> is the same primitive. An array or an object is not \<^verbatim>\<open>===\<close> to
  a primitive.
\<close>

definition strict_equals :: "jsval \<Rightarrow> prim \<Rightarrow> bool" where
  "strict_equals a b = (a = Prim b)"

text \<open>
  \<^verbatim>\<open>v.key\<close>: a \<^verbatim>\<open>TypeError\<close> on \<^verbatim>\<open>null\<close> and \<^verbatim>\<open>undefined\<close>, the property of an
  object when it has one, and \<^verbatim>\<open>undefined\<close> otherwise. The keys the script reads
  (\<^verbatim>\<open>ips\<close>, \<^verbatim>\<open>id\<close>, \<^verbatim>\<open>ip\<close>, \<^verbatim>\<open>name\<close>, \<^verbatim>\<open>device_type\<close>, \<^verbatim>\<open>importance\<close>,
  \<^verbatim>\<open>last_status\<close>, \<^verbatim>\<open>last_ping_ms\<close>, \<^verbatim>\<open>last5\<close>, \<^verbatim>\<open>last60\<close>, \<^verbatim>\<open>last_checked\<close>) are
  no built-in property of a boolean, a number, a string or an array.
\<close>

fun get_prop :: "jsval \<Rightarrow> string \<Rightarrow> exn + jsval" where
  "get_prop JUndefined k = Inl TypeError"
| "get_prop JNull k = Inl TypeError"
| "get_prop (JObj kvs) k = Inr (case map_of kvs k of None \<Rightarrow> JUndefined | Some v \<Rightarrow> v)"
| "get_prop _ k = Inr JUndefined"

fun join :: "string \<Rightarrow> string list \<Rightarrow> string" where
  "join sep [] = []"
| "join sep [s] = s"
| "join sep (s # t # ss) = s @ sep @ join sep (t # ss)"

text \<open>\<^verbatim>\<open>ToString\<close> of a primitive.\<close>

fun prim_to_string :: "runtime \<Rightarrow> prim \<Rightarrow> string" where
  "prim_to_string rt Undefined = ''undefined''"
| "prim_to_string rt Null = ''null''"
| "prim_to_string rt (Bool b) = (if b then ''true'' else ''false'')"
| "prim_to_string rt (Num n) = number_to_string rt n"
| "prim_to_string rt (Str s) = s"

text \<open>
  \<^verbatim>\<open>ToString\<close>. An array prints as its elements joined by commas, \<^verbatim>\<open>null\<close> and
  \<^verbatim>\<open>undefined\<close> elements as the empty string. An object parsed from JSON has the
  methods of \<^verbatim>\<open>Object.prototype\<close> unless a key of its own hides them: it prints as
  \<^verbatim>\<open>[object Object]\<close>, but an own property \<^verbatim>\<open>toString\<close> is a JSON value, not a
  function, and \<^verbatim>\<open>valueOf\<close> gives no primitive, so the conversion throws a
  \<^verbatim>\<open>TypeError\<close>.
\<close>

fun to_string :: "runtime \<Rightarrow> jsval \<Rightarrow> exn + string"
  and to_strings :: "runtime \<Rightarrow> jsval list \<Rightarrow> exn + string list" where
  "to_string rt (Prim p) = Inr (prim_to_string rt p)"
| "to_string rt (JArr xs) =
     (case to_strings rt xs of Inl e \<Rightarrow> Inl e | Inr ss \<Rightarrow> Inr (join '','' ss))"
| "to_string rt (JObj kvs) =
     (if ''toString'' \<in> set (map fst kvs) then Inl TypeError else Inr ''[object Object]'')"
| "to_strings rt [] = Inr []"
| "to_strings rt (x # xs) =
     (case (if x = JNull \<or> x = JUndefined then Inr [] else to_string rt x) of
        Inl e \<Rightarrow> Inl e
      | Inr s \<Rightarrow> (case to_strings rt xs of Inl e \<Rightarrow> Inl e | Inr ss \<Rightarrow> Inr (s # ss)))"

text \<open>
  \<^verbatim>\<open>ToPrimitive\<close>: a primitive is itself; an array or an object becomes its string
  (\<^verbatim>\<open>valueOf\<close> returns the object itself, so \<^verbatim>\<open>toString\<close> decides under either hint).
\<close>

definition to_primitive :: "runtime \<Rightarrow> jsval \<Rightarrow> exn + prim" where
  "to_primitive rt v =
     (case v of
        Prim p \<Rightarrow> Inr p
      | _ \<Rightarrow> (case to_string rt v of Inl e \<Rightarrow> Inl e | Inr s \<Rightarrow> Inr (Str s)))"

text \<open>\<^verbatim>\<open>ToNumber\<close> of a primitive, \<open>None\<close> for \<^verbatim>\<open>NaN\<close>.\<close>

fun prim_to_number :: "runtime \<Rightarrow> prim \<Rightarrow> rat option" where
  "prim_to_number rt Undefined = None"
| "prim_to_number rt Null = Some 0"
| "prim_to_number rt (Bool b) = Some (if b then 1 else 0)"
| "prim_to_number rt (Num n) = Some n"
| "prim_to_number rt (Str s) = string_to_number rt s"

definition to_number :: "runtime \<Rightarrow> jsval \<Rightarrow> exn + rat option" where
  "to_number rt v = and_then (to_primitive rt v) (\<lambda>p. Inr (prim_to_number rt p))"

text \<open>
  \<^verbatim>\<open>v < n\<close> for a number literal \<^verbatim>\<open>n\<close>: the right operand is not a string, so both
  sides are compared as numbers, and a \<^verbatim>\<open>NaN\<close> on the left makes the comparison false.
\<close>

definition less_than :: "runtime \<Rightarrow> jsval \<Rightarrow> rat \<Rightarrow> exn + bool" where
  "less_than rt v n =
     and_then (to_number rt v) (\<lambda>r. Inr (case r of None \<Rightarrow> False | Some x \<Rightarrow> x < n))"

text \<open>\<^verbatim>\<open>v + s\<close> for a string literal \<^verbatim>\<open>s\<close>: the string of the primitive of \<^verbatim>\<open>v\<close>, then \<^verbatim>\<open>s\<close>.\<close>

definition concat_str :: "runtime \<Rightarrow> jsval \<Rightarrow> string \<Rightarrow> exn + string" where
  "concat_str rt v s = and_then (to_primitive rt v) (\<lambda>p. Inr (prim_to_string rt p @ s))"

text \<open>\<^verbatim>\<open>new Date(v).toLocaleString()\<close>: the constructor takes the primitive of \<^verbatim>\<open>v\<close>.\<close>

definition new_Date_toLocaleString :: "runtime \<Rightarrow> jsval \<Rightarrow> exn + string" where
  "new_Date_toLocaleString rt v =
     and_then (to_primitive rt v) (\<lambda>p. Inr (date_to_locale_string rt p))"

section \<open>The part of the DOM the script touches\<close>

datatype node =
    Element (tagName: string) (className: string) (attributes: "(string \<times> string) list")
      (childNodes: "node list")
  | Text string

definition createElement :: "string \<Rightarrow> node" where
  "createElement tag = Element tag [] [] []"

fun set_className :: "string \<Rightarrow> node \<Rightarrow> node" where
  "set_className c (Element tag _ as cs) = Element tag c as cs"
| "set_className c (Text s) = Text s"

fun set_attribute :: "string \<Rightarrow> string \<Rightarrow> node \<Rightarrow> node" where
  "set_attribute k v (Element tag c as cs) = Element tag c (AList.update k v as) cs"
| "set_attribute k v (Text s) = Text s"

text \<open>
  \<^verbatim>\<open>el.textContent = v\<close>: the attribute is a nullable string, so \<^verbatim>\<open>null\<close> and
  \<^verbatim>\<open>undefined\<close> count as the empty string and every other value is converted by
  \<^verbatim>\<open>ToString\<close>, which can throw; the children of the element are replaced by one text
  node, or by nothing when the string is empty.
\<close>

definition prim_text :: "runtime \<Rightarrow> prim \<Rightarrow> string" where
  "prim_text rt p = (if p = Null \<or> p = Undefined then [] else prim_to_string rt p)"

definition text_of :: "runtime \<Rightarrow> jsval \<Rightarrow> exn + string" where
  "text_of rt v = (case v of Prim p \<Rightarrow> Inr (prim_text rt p) | _ \<Rightarrow> to_string rt v)"

definition text_nodes :: "string \<Rightarrow> node list" where
  "text_nodes s = (if s = [] then [] else [Text s])"

fun replace_children :: "string \<Rightarrow> node \<Rightarrow> node" where
  "replace_children s (Element tag c as cs) = Element tag c as (text_nodes s)"
| "replace_children s (Text t) = Text s"

definition set_textContent :: "runtime \<Rightarrow> jsval \<Rightarrow> node \<Rightarrow> exn + node" where
  "set_textContent rt v el = and_then (text_of rt v) (\<lambda>s. Inr (replace_children s el))"

fun appendChild :: "node \<Rightarrow> node \<Rightarrow> node" where
  "appendChild child (Element tag c as cs) = Element tag c as (cs @ [child])"
| "appendChild child (Text s) = Text s"

text \<open>\<^verbatim>\<open>el.innerHTML = ''\<close> removes every child.\<close>

fun clear_innerHTML :: "node \<Rightarrow> node" where
  "clear_innerHTML (Element tag c as cs) = Element tag c as []"
| "clear_innerHTML (Text s) = Text s"

section \<open>Rendering one entry: the body of the \<^verbatim>\<open>forEach\<close> callback\<close>

text \<open>
  The value of \<^verbatim>\<open>entry.k\<close> once the first read of the callback, \<^verbatim>\<open>ip.last_status\<close> in
  line 14, has not thrown: a read throws on \<^verbatim>\<open>null\<close> and \<^verbatim>\<open>undefined\<close> only, whatever
  the key, so the later reads of the same entry do not throw either.
\<close>

definition read_prop :: "jsval \<Rightarrow> string \<Rightarrow> jsval" where
  "read_prop v k = (case get_prop v k of Inl e \<Rightarrow> JUndefined | Inr x \<Rightarrow> x)"

definition tr_className :: "jsval \<Rightarrow> string" where
  "tr_className entry =
     (if strict_equals (read_prop entry ''last_status'') (Str ''down'') then ''down'' else ''up'')"

text \<open>Lines 16 to 21: the template literal of line 18 converts \<^verbatim>\<open>ip.id\<close> to a string.\<close>

definition tdIp :: "runtime \<Rightarrow> jsval \<Rightarrow> exn + node" where
  "tdIp rt entry =
     and_then (to_string rt (read_prop entry ''id'')) (\<lambda>id_string.
     let a = createElement ''a'';
         a = set_attribute ''href'' (''/ip/'' @ id_string) a;
         a = set_attribute ''target'' ''_blank'' a
     in and_then (set_textContent rt (read_prop entry ''ip'') a) (\<lambda>a.
        Inr (appendChild a (createElement ''td''))))"

definition tdName :: "runtime \<Rightarrow> jsval \<Rightarrow> exn + node" where
  "tdName rt entry =
     set_textContent rt (logical_or (read_prop entry ''name'') (JStr ''-'')) (createElement ''td'')"

definition tdType :: "runtime \<Rightarrow> jsval \<Rightarrow> exn + node" where
  "tdType rt entry =
     set_textContent rt (logical_or (read_prop entry ''device_type'') (JStr ''-''))
       (createElement ''td'')"

definition tdImp :: "runtime \<Rightarrow> jsval \<Rightarrow> exn + node" where
  "tdImp rt entry =
     set_textContent rt (logical_or (read_prop entry ''importance'') (JStr ''-''))
       (createElement ''td'')"

definition tdStatus :: "runtime \<Rightarrow> jsval \<Rightarrow> exn + node" where
  "tdStatus rt entry =
     set_textContent rt (logical_or (read_prop entry ''last_status'') (JStr ''-''))
       (set_className ''status'' (createElement ''td''))"

definition tdPing :: "runtime \<Rightarrow> jsval \<Rightarrow> exn + node" where
  "tdPing rt entry =
     set_textContent rt
       (if strict_equals (read_prop entry ''last_ping_ms'') Null then JStr ''-''
        else read_prop entry ''last_ping_ms'')
       (createElement ''td'')"

text \<open>
  Lines 29 and 30: the class from the comparison with 95, then the text from the
  concatenation with \<^verbatim>\<open>'%'\<close>.
\<close>

definition td_percent :: "runtime \<Rightarrow> jsval \<Rightarrow> exn + node" where
  "td_percent rt v =
     and_then (less_than rt v 95) (\<lambda>below.
     and_then (concat_str rt v ''%'') (\<lambda>s.
     Inr (replace_children s
            (set_className (if below then ''bad'' else ''good'') (createElement ''td'')))))"

definition td5 :: "runtime \<Rightarrow> jsval \<Rightarrow> exn + node" where
  "td5 rt entry = td_percent rt (read_prop entry ''last5'')"

definition td60 :: "runtime \<Rightarrow> jsval \<Rightarrow> exn + node" where
  "td60 rt entry = td_percent rt (read_prop entry ''last60'')"

definition tdChecked :: "runtime \<Rightarrow> jsval \<Rightarrow> exn + node" where
  "tdChecked rt entry =
     (if truthy (read_prop entry ''last_checked'')
      then and_then (new_Date_toLocaleString rt (read_prop entry ''last_checked'')) (\<lambda>s.
           Inr (replace_children s (createElement ''td'')))
      else Inr (replace_children ''-'' (createElement ''td'')))"

text \<open>
  The callback up to \<^verbatim>\<open>dashboardBody.appendChild(tr)\<close>: the row with its class, then
  the nine cells in the order of lines 16 to 31, appended in the order of lines 33 to
  41. A throw at the first property read or in a conversion leaves the callback before
  the row is appended to the table.
\<close>

definition render_row :: "runtime \<Rightarrow> jsval \<Rightarrow> exn + node" where
  "render_row rt entry =
     and_then (get_prop entry ''last_status'') (\<lambda>last_status.
     let tr = set_className (tr_className entry) (createElement ''tr'') in
     and_then (tdIp rt entry) (\<lambda>c1.
     and_then (tdName rt entry) (\<lambda>c2.
     and_then (tdType rt entry) (\<lambda>c3.
     and_then (tdImp rt entry) (\<lambda>c4.
     and_then (tdStatus rt entry) (\<lambda>c5.
     and_then (tdPing rt entry) (\<lambda>c6.
     and_then (td5 rt entry) (\<lambda>c7.
     and_then (td60 rt entry) (\<lambda>c8.
     and_then (tdChecked rt entry) (\<lambda>c9.
     Inr (fold appendChild [c1, c2, c3, c4, c5, c6, c7, c8, c9] tr)))))))))))"

text \<open>
  \<^verbatim>\<open>ips.forEach(ip => {...})\<close> on the table body: the rows are appended one by one,
  and an exception thrown by the callback ends the loop with the rows appended so far.
\<close>

fun forEach_render :: "runtime \<Rightarrow> jsval list \<Rightarrow> node \<Rightarrow> node \<times> exn option" where
  "forEach_render rt [] body = (body, None)"
| "forEach_render rt (entry # entries) body =
     (case render_row rt entry of
        Inl e \<Rightarrow> (body, Some e)
      | Inr tr \<Rightarrow> forEach_render rt entries (appendChild tr body))"

section \<open>\<^verbatim>\<open>fetchAndRender\<close>\<close>

text \<open>
  The two awaited promises of lines 7 and 8: \<^verbatim>\<open>fetch\<close> rejects, or resolves with a
  response whose \<^verbatim>\<open>json()\<close> rejects or resolves with the parsed body.
\<close>

datatype json_outcome = JsonRejected | JsonResolved jsval

datatype fetch_outcome = FetchRejected | FetchResolved json_outcome

record page =
  dashboardBody :: "node option"
  btnRefresh :: "node option"
  console :: "(string \<times> exn) list"

text \<open>
  The \<^verbatim>\<open>try\<close> block, lines 7 to 44: the table body it leaves and the exception it
  ends with, if any. \<^verbatim>\<open>data.ips\<close> throws when the body is \<^verbatim>\<open>null\<close>; \<^verbatim>\<open>ips.forEach\<close>
  is not a function unless \<^verbatim>\<open>ips\<close> is an array, and that call comes after the table
  has been emptied.
\<close>

definition try_block :: "runtime \<Rightarrow> fetch_outcome \<Rightarrow> node option \<Rightarrow> node option \<times> exn option" where
  "try_block rt outcome body =
     (case outcome of
        FetchRejected \<Rightarrow> (body, Some FetchError)
      | FetchResolved JsonRejected \<Rightarrow> (body, Some JsonError)
      | FetchResolved (JsonResolved data) \<Rightarrow>
          (case get_prop data ''ips'' of
             Inl e \<Rightarrow> (body, Some e)
           | Inr v \<Rightarrow>
               (let ips = logical_or v (JArr []) in
                case body of
                  None \<Rightarrow> (None, None)
                | Some el \<Rightarrow>
                    (case ips of
                       JArr entries \<Rightarrow>
                         (case forEach_render rt entries (clear_innerHTML el) of
                            (el', r) \<Rightarrow> (Some el', r))
                     | _ \<Rightarrow> (Some (clear_innerHTML el), Some TypeError)))))"

datatype completion = Fulfilled | Rejected exn

text \<open>
  The whole function, given how its request ends: the \<^verbatim>\<open>catch\<close> clause logs the
  exception with \<^verbatim>\<open>console.error\<close> and the promise of the \<^verbatim>\<open>async\<close> function is
  fulfilled.
\<close>

definition fetchAndRender :: "runtime \<Rightarrow> fetch_outcome \<Rightarrow> page \<Rightarrow> completion \<times> page" where
  "fetchAndRender rt outcome pg =
     (case try_block rt outcome (dashboardBody pg) of
        (body, None) \<Rightarrow> (Fulfilled, pg\<lparr>dashboardBody := body\<rparr>)
      | (body, Some err) \<Rightarrow>
          (Fulfilled,
           pg\<lparr>dashboardBody := body,
              console := console pg @ [(''Error fetching statuses'', err)]\<rparr>))"

section \<open>The triggers and the event loop of the page\<close>

text \<open>
  The top level of the script registers three callers of \<^verbatim>\<open>fetchAndRender\<close>: the
  \<^verbatim>\<open>load\<close> listener of the window (line 51), the \<^verbatim>\<open>click\<close> listener of the refresh
  button, registered only when the button exists (line 57), and
  \<^verbatim>\<open>setInterval(fetchAndRender, 30000)\<close> (line 60).
\<close>

datatype trigger = Load | Click | Timer

definition interval_ms :: nat where
  "interval_ms = 30000"

text \<open>
  The events of a page: the two DOM events, one millisecond passing, and the end of the
  request of the \<open>i\<close>-th call still waiting, with its outcome.
\<close>

datatype event = Dispatch_load | Dispatch_click | Tick | Settle nat fetch_outcome

text \<open>
  A page: its document, the listeners and the interval timer that call
  \<^verbatim>\<open>fetchAndRender\<close> (none before the script has run), the log of the requests issued,
  the calls still waiting for their response, and the milliseconds since the interval
  timer last expired.
\<close>

record window =
  doc :: page
  load_listener :: bool
  click_listener :: bool
  interval :: "nat option"
  sent :: "trigger list"
  in_flight :: "trigger list"
  timer_ms :: nat

text \<open>The page when its document has been parsed and no script has run.\<close>

definition loaded_document :: "node option \<Rightarrow> node option \<Rightarrow> window" where
  "loaded_document body btn =
     \<lparr>doc = \<lparr>dashboardBody = body, btnRefresh = btn, console = []\<rparr>,
      load_listener = False, click_listener = False, interval = None,
      sent = [], in_flight = [], timer_ms = 0\<rparr>"

text \<open>
  The top level of the script, lines 2 to 60, for the two elements that
  \<^verbatim>\<open>getElementById\<close> finds or not: the \<^verbatim>\<open>load\<close> listener, the \<^verbatim>\<open>click\<close> listener
  \<^verbatim>\<open>if (btnRefresh)\<close>, and the interval timer.
\<close>

definition main :: "node option \<Rightarrow> node option \<Rightarrow> window" where
  "main body btn =
     (let w = loaded_document body btn;
          w = w\<lparr>load_listener := True\<rparr>;
          w = (if btnRefresh (doc w) \<noteq> None then w\<lparr>click_listener := True\<rparr> else w)
      in w\<lparr>interval := Some interval_ms, timer_ms := 0\<rparr>)"

text \<open>
  A call of \<^verbatim>\<open>fetchAndRender\<close> runs to its first \<^verbatim>\<open>await\<close>: the
  \<^verbatim>\<open>POST /api/check_all\<close> is issued at once (\<open>sent\<close> is the log of the requests) and the
  call waits for the response. Nothing in the function looks at the calls already
  waiting.
\<close>

definition call_fetchAndRender :: "trigger \<Rightarrow> window \<Rightarrow> window" where
  "call_fetchAndRender t w = w\<lparr>sent := sent w @ [t], in_flight := in_flight w @ [t]\<rparr>"

text \<open>The rest of the call once its request has ended; the table is touched only here.\<close>

definition settle :: "runtime \<Rightarrow> nat \<Rightarrow> fetch_outcome \<Rightarrow> window \<Rightarrow> window" where
  "settle rt i outcome w =
     (if i < length (in_flight w)
      then w\<lparr>doc := snd (fetchAndRender rt outcome (doc w)),
             in_flight := take i (in_flight w) @ drop (Suc i) (in_flight w)\<rparr>
      else w)"

fun step :: "runtime \<Rightarrow> event \<Rightarrow> window \<Rightarrow> window" where
  "step rt Dispatch_load w = (if load_listener w then call_fetchAndRender Load w else w)"
| "step rt Dispatch_click w = (if click_listener w then call_fetchAndRender Click w else w)"
| "step rt Tick w =
     (case interval w of
        None \<Rightarrow> w
      | Some period \<Rightarrow>
          if Suc (timer_ms w) = period
          then call_fetchAndRender Timer (w\<lparr>timer_ms := 0\<rparr>)
          else w\<lparr>timer_ms := Suc (timer_ms w)\<rparr>)"
| "step rt (Settle i outcome) w = settle rt i outcome w"

definition run :: "runtime \<Rightarrow> event list \<Rightarrow> window \<Rightarrow> window" where
  "run rt evs w = fold (step rt) evs w"

subsection \<open>The caller: a browser that has the dashboard open, or not\<close>

text \<open>
  The script runs in a dashboard page and nowhere else. A browser has the page open or
  not; opening it parses the document and runs the script, closing it ends its
  listeners and its timer. The events of a page reach the page that is open; with no
  page open, time passes and nothing runs. \<open>posted\<close> keeps the requests of the pages
  closed so far.
\<close>

record browser =
  tab :: "window option"
  posted :: "trigger list"

datatype browser_event = Open_page "node option" "node option" | Close_page | In_page event

definition requests_of_tab :: "window option \<Rightarrow> trigger list" where
  "requests_of_tab t = (case t of None \<Rightarrow> [] | Some w \<Rightarrow> sent w)"

fun browser_step :: "runtime \<Rightarrow> browser_event \<Rightarrow> browser \<Rightarrow> browser" where
  "browser_step rt (Open_page body btn) b =
     \<lparr>tab = Some (main body btn), posted = posted b @ requests_of_tab (tab b)\<rparr>"
| "browser_step rt Close_page b =
     \<lparr>tab = None, posted = posted b @ requests_of_tab (tab b)\<rparr>"
| "browser_step rt (In_page ev) b =
     (case tab b of None \<Rightarrow> b | Some w \<Rightarrow> b\<lparr>tab := Some (step rt ev w)\<rparr>)"

definition browse :: "runtime \<Rightarrow> browser_event list \<Rightarrow> browser \<Rightarrow> browser" where
  "browse rt evs b = fold (browser_step rt) evs b"

text \<open>Every sweep request the browser has issued.\<close>

definition requests :: "browser \<Rightarrow> trigger list" where
  "requests b = posted b @ requests_of_tab (tab b)"

definition no_page :: browser where
  "no_page = \<lparr>tab = None, posted = []\<rparr>"

text \<open>
  The properties of an entry that the callback reads, lines 14 to 31: the fields of a
  TargetProjection, the address under the name \<^verbatim>\<open>ip\<close>.
\<close>

definition projection_fields :: "string list" where
  "projection_fields =
     [''id'', ''ip'', ''name'', ''device_type'', ''importance'', ''last_status'',
      ''last_ping_ms'', ''last5'', ''last60'', ''last_checked'']"

text \<open>
  The returned list is a parameter of the renderer: the sweep that builds it is not in
  the source files. An entry is a TargetProjection when it is an object with exactly
  the ten fields, each a primitive (a column of the schema or a percentage, or
  \<^verbatim>\<open>null\<close>).
\<close>

fun is_prim :: "jsval \<Rightarrow> bool" where
  "is_prim (Prim p) = True"
| "is_prim (JArr xs) = False"
| "is_prim (JObj kvs) = False"

definition is_projection :: "jsval \<Rightarrow> bool" where
  "is_projection entry =
     (case entry of
        JObj kvs \<Rightarrow>
          distinct (map fst kvs) \<and> set (map fst kvs) = set projection_fields
          \<and> list_all (\<lambda>kv. is_prim (snd kv)) kvs
      | _ \<Rightarrow> False)"

text \<open>
  Notation for the statements about rows: the row of nine cells written out for the
  ten primitive values of an entry. The first cell holds the link, whose target is the
  only place where the \<^verbatim>\<open>id\<close> appears.
\<close>

abbreviation nine_cell_row ::
  "runtime \<Rightarrow> prim \<Rightarrow> prim \<Rightarrow> prim \<Rightarrow> prim \<Rightarrow> prim \<Rightarrow> prim \<Rightarrow> prim \<Rightarrow> prim \<Rightarrow> prim \<Rightarrow> prim \<Rightarrow> node" where
  "nine_cell_row rt p_id p_ip p_name p_type p_imp p_status p_ping p5 p60 p_checked \<equiv>
     Element ''tr'' (if p_status = Str ''down'' then ''down'' else ''up'') []
       [Element ''td'' [] []
          [Element ''a'' []
             [(''href'', ''/ip/'' @ prim_to_string rt p_id), (''target'', ''_blank'')]
             (text_nodes (prim_text rt p_ip))],
        Element ''td'' [] []
          (text_nodes (prim_text rt (if truthy (Prim p_name) then p_name else Str ''-''))),
        Element ''td'' [] []
          (text_nodes (prim_text rt (if truthy (Prim p_type) then p_type else Str ''-''))),
        Element ''td'' [] []
          (text_nodes (prim_text rt (if truthy (Prim p_imp) then p_imp else Str ''-''))),
        Element ''td'' ''status'' []
          (text_nodes (prim_text rt (if truthy (Prim p_status) then p_status else Str ''-''))),
        Element ''td'' [] []
          (text_nodes (prim_text rt (if p_ping = Null then Str ''-'' else p_ping))),
        Element ''td''
          (if (case prim_to_number rt p5 of None \<Rightarrow> False | Some x \<Rightarrow> x < 95)
           then ''bad'' else ''good'')
          [] (text_nodes (prim_to_string rt p5 @ ''%'')),
        Element ''td''
          (if (case prim_to_number rt p60 of None \<Rightarrow> False | Some x \<Rightarrow> x < 95)
           then ''bad'' else ''good'')
          [] (text_nodes (prim_to_string rt p60 @ ''%'')),
        Element ''td'' [] []
          (text_nodes (if truthy (Prim p_checked) then date_to_locale_string rt p_checked
                       else ''-''))]"

subsection \<open>One runtime, for the concrete examples\<close>

fun decimal :: "nat \<Rightarrow> string" where
  "decimal n =
     (if n < 10 then [''0123456789'' ! n]
      else decimal (n div 10) @ [''0123456789'' ! (n mod 10)])"

declare decimal.simps [simp del]

text \<open>
  Whole numbers print in decimal (the examples use no other number), no string reads
  as a number, and no date is printed in the examples.
\<close>

definition stub_runtime :: runtime where
  "stub_runtime =
     \<lparr>number_to_string =
        (\<lambda>n. if n < 0 then ''-'' @ decimal (nat (- \<lfloor>n\<rfloor>)) else decimal (nat \<lfloor>n\<rfloor>)),
      string_to_number = (\<lambda>s. None),
      date_to_locale_string = (\<lambda>p. ''Invalid Date'')\<rparr>"

section \<open>The schema\<close>

text \<open>
  The two tables of the schema script. \<^verbatim>\<open>INTEGER PRIMARY KEY AUTOINCREMENT\<close>
  columns are row ids; a column declared \<^verbatim>\<open>NOT NULL\<close> holds a value, every other
  column an optional one; \<^verbatim>\<open>REAL\<close> values are kept by their exact value.
\<close>

record ips_row =
  ips_id :: nat
  ip :: string
  name :: "string option"
  device_type :: "string option"
  importance :: "string option"
  remark :: "string option"
  last_status :: "string option"
  last_ping_ms :: "rat option"
  last_checked :: "string option"

record ping_history_row =
  ph_id :: nat
  ip_id :: nat
  ts :: string
  status :: string
  ping_ms :: "rat option"

text \<open>
  A connection to the database: the two tables, the \<^verbatim>\<open>sqlite_sequence\<close> counters of
  their \<^verbatim>\<open>AUTOINCREMENT\<close> keys, and the \<^verbatim>\<open>foreign_keys\<close> pragma, which SQLite
  keeps per connection and which is off until line 1 of the script turns it on.
\<close>

record database =
  foreign_keys :: bool
  ips :: "ips_row list"
  ips_seq :: nat
  ping_history :: "ping_history_row list"
  ping_history_seq :: nat

datatype sql_error = NotNull_failed | Unique_failed | ForeignKey_failed

text \<open>\<^verbatim>\<open>INSERT\<close> aborts on a violated constraint, \<^verbatim>\<open>INSERT OR IGNORE\<close> skips the row.\<close>

datatype conflict = Abort | Ignore

text \<open>
  \<^verbatim>\<open>AUTOINCREMENT\<close>: the new row id is one more than the largest row id the table
  has ever held.
\<close>

definition next_rowid :: "nat \<Rightarrow> nat list \<Rightarrow> nat" where
  "next_rowid seq ids = Suc (max seq (fold max ids 0))"

text \<open>
  \<^verbatim>\<open>INSERT [OR IGNORE] INTO ips (ip, name, device_type, importance, remark) VALUES (?, ?, ?, ?, ?)\<close>,
  under \<^verbatim>\<open>ip TEXT NOT NULL UNIQUE\<close>. The row id is taken before the constraints are
  checked: a row that \<^verbatim>\<open>OR IGNORE\<close> skips is not stored, raises no error and still
  advances the \<^verbatim>\<open>sqlite_sequence\<close> counter; a statement that aborts changes nothing.
\<close>

definition insert_ips ::
  "conflict \<Rightarrow> string option \<Rightarrow> string option \<Rightarrow> string option \<Rightarrow> string option \<Rightarrow> string option
    \<Rightarrow> database \<Rightarrow> sql_error + database" where
  "insert_ips c v_ip v_name v_type v_imp v_remark db =
     (let i = next_rowid (ips_seq db) (map ips_id (ips db)) in
      case v_ip of
        None \<Rightarrow> (case c of Abort \<Rightarrow> Inl NotNull_failed | Ignore \<Rightarrow> Inr (db\<lparr>ips_seq := i\<rparr>))
      | Some a \<Rightarrow>
          if a \<in> set (map ip (ips db))
          then (case c of Abort \<Rightarrow> Inl Unique_failed | Ignore \<Rightarrow> Inr (db\<lparr>ips_seq := i\<rparr>))
          else
            Inr (db\<lparr>ips := ips db @
                   [\<lparr>ips_id = i, ip = a, name = v_name, device_type = v_type,
                     importance = v_imp, remark = v_remark, last_status = None,
                     last_ping_ms = None, last_checked = None\<rparr>],
                   ips_seq := i\<rparr>))"

text \<open>
  \<^verbatim>\<open>UPDATE ips SET ip = ?, name = ?, device_type = ?, importance = ?, remark = ? WHERE id = ?\<close>.
\<close>

definition update_ips ::
  "nat \<Rightarrow> string option \<Rightarrow> string option \<Rightarrow> string option \<Rightarrow> string option \<Rightarrow> string option
    \<Rightarrow> database \<Rightarrow> sql_error + database" where
  "update_ips i v_ip v_name v_type v_imp v_remark db =
     (if i \<notin> set (map ips_id (ips db)) then Inr db
      else
        (case v_ip of
           None \<Rightarrow> Inl NotNull_failed
         | Some a \<Rightarrow>
             if a \<in> set (map ip (filter (\<lambda>r. ips_id r \<noteq> i) (ips db))) then Inl Unique_failed
             else
               Inr (db\<lparr>ips := map (\<lambda>r. if ips_id r = i
                                        then r\<lparr>ip := a, name := v_name, device_type := v_type,
                                               importance := v_imp, remark := v_remark\<rparr>
                                        else r) (ips db)\<rparr>)))"

text \<open>
  \<^verbatim>\<open>UPDATE ips SET last_status = ?, last_ping_ms = ?, last_checked = ? WHERE id = ?\<close>:
  no constraint is on these columns.
\<close>

definition update_status ::
  "nat \<Rightarrow> string option \<Rightarrow> rat option \<Rightarrow> string option \<Rightarrow> database \<Rightarrow> database" where
  "update_status i v_status v_ping v_checked db =
     db\<lparr>ips := map (\<lambda>r. if ips_id r = i
                          then r\<lparr>last_status := v_status, last_ping_ms := v_ping,
                                 last_checked := v_checked\<rparr>
                          else r) (ips db)\<rparr>"

text \<open>
  \<^verbatim>\<open>DELETE FROM ips WHERE id = ?\<close>. With the foreign keys enforced, deleting a row
  of \<^verbatim>\<open>ips\<close> deletes the rows of \<^verbatim>\<open>ping_history\<close> that refer to it
  (\<^verbatim>\<open>ON DELETE CASCADE\<close>, line 21); without, they stay.
\<close>

definition delete_ips :: "nat \<Rightarrow> database \<Rightarrow> database" where
  "delete_ips i db =
     (if i \<in> set (map ips_id (ips db))
      then db\<lparr>ips := filter (\<lambda>r. ips_id r \<noteq> i) (ips db),
              ping_history :=
                (if foreign_keys db then filter (\<lambda>h. ip_id h \<noteq> i) (ping_history db)
                 else ping_history db)\<rparr>
      else db)"

text \<open>
  \<^verbatim>\<open>INSERT INTO ping_history (ip_id, ts, status, ping_ms) VALUES (?, ?, ?, ?)\<close>: three
  columns are \<^verbatim>\<open>NOT NULL\<close>, \<^verbatim>\<open>ping_ms\<close> is not, and with the foreign keys enforced
  \<^verbatim>\<open>ip_id\<close> must be the id of a row of \<^verbatim>\<open>ips\<close>. No constraint relates \<^verbatim>\<open>status\<close> and
  \<^verbatim>\<open>ping_ms\<close>.
\<close>

definition insert_ping_history ::
  "nat option \<Rightarrow> string option \<Rightarrow> string option \<Rightarrow> rat option \<Rightarrow> database
    \<Rightarrow> sql_error + database" where
  "insert_ping_history v_ip_id v_ts v_status v_ping db =
     (case (v_ip_id, v_ts, v_status) of
        (Some t, Some time, Some st) \<Rightarrow>
          if foreign_keys db \<and> t \<notin> set (map ips_id (ips db)) then Inl ForeignKey_failed
          else
            (let i = next_rowid (ping_history_seq db) (map ph_id (ping_history db)) in
             Inr (db\<lparr>ping_history := ping_history db @
                    [\<lparr>ph_id = i, ip_id = t, ts = time, status = st, ping_ms = v_ping\<rparr>],
                    ping_history_seq := i\<rparr>))
      | _ \<Rightarrow> Inl NotNull_failed)"

text \<open>\<^verbatim>\<open>DELETE FROM ping_history WHERE id = ?\<close>.\<close>

definition delete_ping_history :: "nat \<Rightarrow> database \<Rightarrow> database" where
  "delete_ping_history i db = db\<lparr>ping_history := filter (\<lambda>h. ph_id h \<noteq> i) (ping_history db)\<rparr>"

datatype stmt =
    Insert_ips conflict "string option" "string option" "string option" "string option"
      "string option"
  | Update_ips nat "string option" "string option" "string option" "string option"
      "string option"
  | Update_status nat "string option" "rat option" "string option"
  | Delete_ips nat
  | Insert_ping_history "nat option" "string option" "string option" "rat option"
  | Delete_ping_history nat

fun exec :: "stmt \<Rightarrow> database \<Rightarrow> sql_error + database" where
  "exec (Insert_ips c a n t m r) db = insert_ips c a n t m r db"
| "exec (Update_ips i a n t m r) db = update_ips i a n t m r db"
| "exec (Update_status i s p c) db = Inr (update_status i s p c db)"
| "exec (Delete_ips i) db = Inr (delete_ips i db)"
| "exec (Insert_ping_history t time s p) db = insert_ping_history t time s p db"
| "exec (Delete_ping_history i) db = Inr (delete_ping_history i db)"

text \<open>
  Statements run one after the other, each in its own transaction: a statement that
  fails leaves the database as it was, and the next one runs.
\<close>

fun exec_all :: "stmt list \<Rightarrow> database \<Rightarrow> database" where
  "exec_all [] db = db"
| "exec_all (q # qs) db =
     (case exec q db of Inl e \<Rightarrow> exec_all qs db | Inr db' \<Rightarrow> exec_all qs db')"

text \<open>A new database file with the two tables empty, on a connection just opened.\<close>

definition new_database :: database where
  "new_database =
     \<lparr>foreign_keys = False, ips = [], ips_seq = 0, ping_history = [], ping_history_seq = 0\<rparr>"

text \<open>
  The schema script: the pragma of line 1, the two \<^verbatim>\<open>CREATE TABLE IF NOT EXISTS\<close>
  (nothing to do when the tables are there), and the two sample rows of lines 25 to 28.
\<close>

definition schema_sql :: "database \<Rightarrow> database" where
  "schema_sql db =
     exec_all
       [Insert_ips Ignore (Some ''8.8.8.8'') (Some ''Google DNS'') (Some ''other'')
          (Some ''important'') (Some ''Public DNS''),
        Insert_ips Ignore (Some ''1.1.1.1'') (Some ''Cloudflare DNS'') (Some ''other'')
          (Some ''important'') (Some ''Public DNS'')]
       (db\<lparr>foreign_keys := True\<rparr>)"

text \<open>
  A new connection to the same database file: the tables are as they were left, and
  the pragma is off again, as on every connection that SQLite opens.
\<close>

definition connect :: "database \<Rightarrow> database" where
  "connect db = db\<lparr>foreign_keys := False\<rparr>"

text \<open>
  What can happen to the database file: a new connection is opened, the schema script
  is run on the current connection, or one statement is.
\<close>

datatype session_event = Connect | Script | Statement stmt

fun session_step :: "session_event \<Rightarrow> database \<Rightarrow> database" where
  "session_step Connect db = connect db"
| "session_step Script db = schema_sql db"
| "session_step (Statement q) db = exec_all [q] db"

definition session :: "session_event list \<Rightarrow> database \<Rightarrow> database" where
  "session steps db = fold session_step steps db"

text \<open>Every row of \<^verbatim>\<open>ping_history\<close> refers to a row of \<^verbatim>\<open>ips\<close>.\<close>

definition no_orphans :: "database \<Rightarrow> bool" where
  "no_orphans db = (\<forall>h \<in> set (ping_history db). ip_id h \<in> set (map ips_id (ips db)))"

text \<open>The two keys of \<^verbatim>\<open>ips\<close>, \<^verbatim>\<open>ip\<close> and \<^verbatim>\<open>id\<close>, have no duplicates.\<close>

definition keys_ok :: "database \<Rightarrow> bool" where
  "keys_ok db = (distinct (map ip (ips db)) \<and> distinct (map ips_id (ips db)))"

section \<open>The prober, the writer of the history and the aggregator\<close>

text \<open>
  The server side (the route behind \<^verbatim>\<open>/api/check_all\<close>) is not among the source
  files; the definitions of this section follow the specification.
\<close>

datatype attempt = Echo rat | Unreachable | Transport_failure

text \<open>
  Modelled from the spec: the Prober (section 4.2), which is not in the source files.
  A reply within the timeout is \<^verbatim>\<open>up\<close> with the measured latency; a timeout, an
  unreachable target and a transport failure are \<^verbatim>\<open>down\<close> with no latency.
\<close>

definition probe :: "rat \<Rightarrow> attempt \<Rightarrow> string \<times> rat option" where
  "probe timeout a =
     (case a of
        Echo ms \<Rightarrow> if ms \<le> timeout then (''up'', Some ms) else (''down'', None)
      | Unreachable \<Rightarrow> (''down'', None)
      | Transport_failure \<Rightarrow> (''down'', None))"

text \<open>
  Modelled from the spec: step 3 of the Sweep Orchestrator (section 4.5), which is not
  in the source files. The outcome of a probe is appended to the history, then the
  status columns of the target are updated.
\<close>

definition record_check :: "nat \<Rightarrow> string \<Rightarrow> string \<times> rat option \<Rightarrow> stmt list" where
  "record_check target time outcome =
     [Insert_ping_history (Some target) (Some time) (Some (fst outcome)) (snd outcome),
      Update_status target (Some (fst outcome)) (snd outcome) (Some time)]"

text \<open>
  Modelled from the spec: the lifecycle of section 3, whose code is not in the source
  files. A target is registered, edited and removed by the registration pages; a
  CheckRecord is created only by the orchestrator after a probe, never changed, and
  deleted only with its target.
\<close>

datatype action =
    Register "string option" "string option" "string option" "string option" "string option"
  | Edit nat "string option" "string option" "string option" "string option" "string option"
  | Remove nat
  | Check nat string attempt

fun action_stmts :: "rat \<Rightarrow> action \<Rightarrow> stmt list" where
  "action_stmts timeout (Register a n t m r) = [Insert_ips Abort a n t m r]"
| "action_stmts timeout (Edit i a n t m r) = [Update_ips i a n t m r]"
| "action_stmts timeout (Remove i) = [Delete_ips i]"
| "action_stmts timeout (Check i time a) = record_check i time (probe timeout a)"

definition perform :: "rat \<Rightarrow> action list \<Rightarrow> database \<Rightarrow> database" where
  "perform timeout acts db = exec_all (concat (map (action_stmts timeout) acts)) db"

text \<open>
  Modelled from the spec: the single-flight guard of the Sweep Orchestrator (section 5,
  Triggers, and section 9), which is not in the source files. A request that arrives
  while no sweep is active starts one. While a sweep is active the orchestrator either
  skips the request, or keeps one request queued and skips the others, or makes every
  request wait; when the active sweep finishes, the first request waiting starts its
  sweep. A request is named by the trigger that sent it.
\<close>

datatype policy = Skip | Queue_once | Wait

record orchestrator =
  running :: "trigger list"
  waiting :: "trigger list"
  skipped :: "trigger list"

definition idle :: orchestrator where
  "idle = \<lparr>running = [], waiting = [], skipped = []\<rparr>"

definition request_sweep :: "policy \<Rightarrow> trigger \<Rightarrow> orchestrator \<Rightarrow> orchestrator" where
  "request_sweep p t s =
     (if running s = [] \<and> waiting s = [] then s\<lparr>running := [t]\<rparr>
      else
        (case p of
           Skip \<Rightarrow> s\<lparr>skipped := skipped s @ [t]\<rparr>
         | Queue_once \<Rightarrow>
             if waiting s = [] then s\<lparr>waiting := [t]\<rparr> else s\<lparr>skipped := skipped s @ [t]\<rparr>
         | Wait \<Rightarrow> s\<lparr>waiting := waiting s @ [t]\<rparr>))"

definition sweep_finished :: "orchestrator \<Rightarrow> orchestrator" where
  "sweep_finished s =
     (case waiting s of
        [] \<Rightarrow> s\<lparr>running := tl (running s)\<rparr>
      | t # rest \<Rightarrow> s\<lparr>running := tl (running s) @ [t], waiting := rest\<rparr>)"

datatype server_event = Request trigger | Finished

fun serve_step :: "policy \<Rightarrow> server_event \<Rightarrow> orchestrator \<Rightarrow> orchestrator" where
  "serve_step p (Request t) s = request_sweep p t s"
| "serve_step p Finished s = sweep_finished s"

definition serve :: "policy \<Rightarrow> server_event list \<Rightarrow> orchestrator \<Rightarrow> orchestrator" where
  "serve p evs s = fold (serve_step p) evs s"

text \<open>A latency is stored exactly with the status \<^verbatim>\<open>up\<close>.\<close>

definition ping_only_when_up :: "ping_history_row \<Rightarrow> bool" where
  "ping_only_when_up h =
     ((status h = ''up'' \<and> ping_ms h \<noteq> None) \<or> (status h = ''down'' \<and> ping_ms h = None))"

text \<open>
  Modelled from the spec: the rounding of section 4.4, to the nearest integer with
  ties away from zero.
\<close>

definition round_half_away :: "rat \<Rightarrow> int" where
  "round_half_away x = (if 0 \<le> x then \<lfloor>x + 1 / 2\<rfloor> else \<lceil>x - 1 / 2\<rceil>)"

definition up_count :: "ping_history_row list \<Rightarrow> nat" where
  "up_count records = length (filter (\<lambda>h. status h = ''up'') records)"

text \<open>
  Modelled from the spec: the Aggregator (section 4.4), which is not in the source
  files. The records come most recent first; the first \<open>windowSize\<close> of them are
  considered, fewer when the history is shorter; with no record considered the
  percentage is undefined.
\<close>

definition windowStats :: "ping_history_row list \<Rightarrow> nat \<Rightarrow> int option" where
  "windowStats records windowSize =
     (let considered = take windowSize records in
      if considered = [] then None
      else Some (round_half_away
                   (100 * of_nat (up_count considered) / of_nat (length considered))))"

text \<open>Modelled from the spec: the two fixed windows of section 4.4.\<close>

definition last5 :: "ping_history_row list \<Rightarrow> int option" where
  "last5 records = windowStats records 5"

definition last60 :: "ping_history_row list \<Rightarrow> int option" where
  "last60 records = windowStats records 60"

section \<open>Concrete inputs for the examples\<close>

definition sample_entry :: jsval where
  "sample_entry =
     JObj [(''id'', JNum 7), (''ip'', JStr ''10.0.0.1''), (''name'', JStr ''gw''),
           (''device_type'', JNull), (''importance'', JStr ''important''),
           (''last_status'', JStr ''down''), (''last_ping_ms'', JNull),
           (''last5'', JNum 67), (''last60'', JNum 95), (''last_checked'', JNull)]"

definition sample_page :: page where
  "sample_page =
     \<lparr>dashboardBody = Some (Element ''tbody'' [] [(''id'', ''dashboard-body'')] [Text ''old'']),
      btnRefresh = None, console = []\<rparr>"

definition sample_response :: jsval where
  "sample_response = JObj [(''ips'', JArr [sample_entry])]"

definition sample_stmts :: "stmt list" where
  "sample_stmts =
     [Insert_ping_history (Some 1) (Some ''2024-05-01T10:00:00'') (Some ''up'') (Some 12),
      Insert_ping_history (Some 2) (Some ''2024-05-01T10:00:00'') (Some ''down'') None,
      Insert_ping_history (Some 1) (Some ''2024-05-01T10:00:30'') (Some ''up'') (Some 11)]"

definition sample_actions :: "action list" where
  "sample_actions =
     [Check 1 ''2024-05-01T10:00:00'' (Echo 12),
      Check 2 ''2024-05-01T10:00:00'' Unreachable,
      Check 1 ''2024-05-01T10:00:30'' (Echo 2500)]"

definition sample_records :: "ping_history_row list" where
  "sample_records =
     [\<lparr>ph_id = 3, ip_id = 1, ts = ''2024-05-01T10:01:00'', status = ''up'', ping_ms = Some 11\<rparr>,
      \<lparr>ph_id = 2, ip_id = 1, ts = ''2024-05-01T10:00:30'', status = ''down'', ping_ms = None\<rparr>,
      \<lparr>ph_id = 1, ip_id = 1, ts = ''2024-05-01T10:00:00'', status = ''up'', ping_ms = Some 12\<rparr>]"

definition sample_requests :: "server_event list" where
  "sample_requests = [Request Load, Request Click, Request Timer]"

section \<open>Properties of the renderer\<close>

lemma and_then_simps [simp]:
  "and_then (Inl e) f = Inl e"
  "and_then (Inr x) f = f x"
  by (simp_all add: and_then_def)

lemma and_then_Inr_iff: "and_then r f = Inr y \<longleftrightarrow> (\<exists>x. r = Inr x \<and> f x = Inr y)"
  by (cases r) simp_all

lemma get_prop_Inl_iff: "get_prop v k = Inl e \<longleftrightarrow> (v = JNull \<or> v = JUndefined) \<and> e = TypeError"
  by (induction v k rule: get_prop.induct) auto

lemma read_prop_eq: "get_prop v k = Inr x \<Longrightarrow> read_prop v k = x"
  by (simp add: read_prop_def)

lemma render_row_Inr_iff:
  "render_row rt entry = Inr tr \<longleftrightarrow>
     (\<exists>st c1 c2 c3 c4 c5 c6 c7 c8 c9.
        get_prop entry ''last_status'' = Inr st \<and> tdIp rt entry = Inr c1 \<and> tdName rt entry = Inr c2
        \<and> tdType rt entry = Inr c3 \<and> tdImp rt entry = Inr c4 \<and> tdStatus rt entry = Inr c5
        \<and> tdPing rt entry = Inr c6 \<and> td5 rt entry = Inr c7 \<and> td60 rt entry = Inr c8
        \<and> tdChecked rt entry = Inr c9
        \<and> tr = Element ''tr'' (tr_className entry) [] [c1, c2, c3, c4, c5, c6, c7, c8, c9])"
  unfolding render_row_def Let_def
  by (simp add: and_then_Inr_iff createElement_def) blast

lemma tr_className_down_iff:
  "tr_className entry = ''down'' \<longleftrightarrow> read_prop entry ''last_status'' = JStr ''down''"
  by (simp add: tr_className_def strict_equals_def)

lemma tr_className_up_iff:
  "tr_className entry = ''up'' \<longleftrightarrow> read_prop entry ''last_status'' \<noteq> JStr ''down''"
  by (simp add: tr_className_def strict_equals_def)

lemma render_row_class: "render_row rt entry = Inr tr \<Longrightarrow> className tr = tr_className entry"
  by (auto simp: render_row_Inr_iff)

lemma render_row_cells:
  assumes "render_row rt entry = Inr tr"
  shows "tdPing rt entry = Inr (childNodes tr ! 5)"
    and "td5 rt entry = Inr (childNodes tr ! 6)"
    and "td60 rt entry = Inr (childNodes tr ! 7)"
    and "length (childNodes tr) = 9"
  using assms by (auto simp: render_row_Inr_iff)

lemma td_percent_class:
  assumes "td_percent rt v = Inr c"
  shows "(className c = ''bad'') = (\<exists>x. to_number rt v = Inr (Some x) \<and> x < 95)"
    and "(className c = ''good'') = (\<not> (\<exists>x. to_number rt v = Inr (Some x) \<and> x < 95))"
  using assms
  by (auto simp: td_percent_def less_than_def and_then_Inr_iff createElement_def split: option.splits if_splits)

lemma to_number_Prim: "to_number rt (Prim p) = Inr (prim_to_number rt p)"
  by (simp add: to_number_def to_primitive_def)

text \<open>
  C10. In every rendered row the seventh cell (\<^verbatim>\<open>last5\<close>) has the class \<^verbatim>\<open>bad\<close>
  exactly when the value of \<^verbatim>\<open>last5\<close>, as a number, is strictly less than 95, and the
  class \<^verbatim>\<open>good\<close> otherwise; the eighth cell does the same with \<^verbatim>\<open>last60\<close>. When the
  value is a number \<open>p\<close>, the class is \<^verbatim>\<open>bad\<close> exactly when \<open>p < 95\<close>.
\<close>

theorem percentage_class_threshold_95:
  assumes "render_row rt entry = Inr tr"
    and "get_prop entry ''last5'' = Inr v5" and "get_prop entry ''last60'' = Inr v60"
  shows "(className (childNodes tr ! 6) = ''bad'') = (\<exists>x. to_number rt v5 = Inr (Some x) \<and> x < 95)
       \<and> (className (childNodes tr ! 6) = ''good'') = (\<not> (\<exists>x. to_number rt v5 = Inr (Some x) \<and> x < 95))
       \<and> (className (childNodes tr ! 7) = ''bad'') = (\<exists>x. to_number rt v60 = Inr (Some x) \<and> x < 95)
       \<and> (className (childNodes tr ! 7) = ''good'') = (\<not> (\<exists>x. to_number rt v60 = Inr (Some x) \<and> x < 95))
       \<and> (v5 = JNum p \<longrightarrow> (className (childNodes tr ! 6) = ''bad'') = (p < 95))
       \<and> (v60 = JNum q \<longrightarrow> (className (childNodes tr ! 7) = ''bad'') = (q < 95))"
proof -
  have a: "td_percent rt v5 = Inr (childNodes tr ! 6)"
    using render_row_cells(2) [OF assms(1)] assms(2) by (simp add: td5_def read_prop_eq)
  have b: "td_percent rt v60 = Inr (childNodes tr ! 7)"
    using render_row_cells(3) [OF assms(1)] assms(3) by (simp add: td60_def read_prop_eq)
  show ?thesis
    using td_percent_class [OF a] td_percent_class [OF b] by (auto simp: to_number_Prim)
qed

lemma text_of_Prim: "text_of rt (Prim p) = Inr (prim_text rt p)"
  by (simp add: text_of_def)

lemma set_textContent_Prim:
  "set_textContent rt (Prim p) (Element tag c as cs) = Inr (Element tag c as (text_nodes (prim_text rt p)))"
  by (simp add: set_textContent_def text_of_Prim)

lemma logical_or_Prim:
  "logical_or (Prim p) (Prim q) = Prim (if truthy (Prim p) then p else q)"
  by (simp add: logical_or_def)

lemma tdIp_prim:
  assumes "get_prop entry ''id'' = Inr (Prim p_id)" and "get_prop entry ''ip'' = Inr (Prim p_ip)"
  shows "tdIp rt entry = Inr (Element ''td'' [] []
           [Element ''a'' [] [(''href'', ''/ip/'' @ prim_to_string rt p_id), (''target'', ''_blank'')]
              (text_nodes (prim_text rt p_ip))])"
  using assms
  by (simp add: tdIp_def read_prop_eq createElement_def set_textContent_Prim Let_def)

lemma td_or_dash_prim:
  "set_textContent rt (logical_or (Prim p) (JStr ''-'')) (Element tag c as cs)
     = Inr (Element tag c as (text_nodes (prim_text rt (if truthy (Prim p) then p else Str ''-''))))"
  by (simp only: logical_or_Prim set_textContent_Prim)

lemma tdName_prim:
  "get_prop entry ''name'' = Inr (Prim p) \<Longrightarrow>
   tdName rt entry = Inr (Element ''td'' [] []
     (text_nodes (prim_text rt (if truthy (Prim p) then p else Str ''-''))))"
  by (simp only: tdName_def read_prop_eq createElement_def td_or_dash_prim)

lemma tdType_prim:
  "get_prop entry ''device_type'' = Inr (Prim p) \<Longrightarrow>
   tdType rt entry = Inr (Element ''td'' [] []
     (text_nodes (prim_text rt (if truthy (Prim p) then p else Str ''-''))))"
  by (simp only: tdType_def read_prop_eq createElement_def td_or_dash_prim)

lemma tdImp_prim:
  "get_prop entry ''importance'' = Inr (Prim p) \<Longrightarrow>
   tdImp rt entry = Inr (Element ''td'' [] []
     (text_nodes (prim_text rt (if truthy (Prim p) then p else Str ''-''))))"
  by (simp only: tdImp_def read_prop_eq createElement_def td_or_dash_prim)

lemma tdStatus_prim:
  "get_prop entry ''last_status'' = Inr (Prim p) \<Longrightarrow>
   tdStatus rt entry = Inr (Element ''td'' ''status'' []
     (text_nodes (prim_text rt (if truthy (Prim p) then p else Str ''-''))))"
  by (simp only: tdStatus_def read_prop_eq createElement_def set_className.simps td_or_dash_prim)

lemma tdPing_prim:
  "get_prop entry ''last_ping_ms'' = Inr (Prim p) \<Longrightarrow>
   tdPing rt entry = Inr (Element ''td'' [] []
     (text_nodes (prim_text rt (if p = Null then Str ''-'' else p))))"
  by (simp add: tdPing_def read_prop_eq createElement_def strict_equals_def set_textContent_Prim)

lemma td_percent_prim:
  "td_percent rt (Prim p) = Inr (Element ''td''
      (if (case prim_to_number rt p of None \<Rightarrow> False | Some x \<Rightarrow> x < 95) then ''bad'' else ''good'') []
      (text_nodes (prim_to_string rt p @ ''%'')))"
  by (simp add: td_percent_def less_than_def to_number_Prim concat_str_def to_primitive_def
      createElement_def)

lemma tdChecked_prim:
  "get_prop entry ''last_checked'' = Inr (Prim p) \<Longrightarrow>
   tdChecked rt entry = Inr (Element ''td'' [] []
     (text_nodes (if truthy (Prim p) then date_to_locale_string rt p else ''-'')))"
  by (simp add: tdChecked_def read_prop_eq createElement_def new_Date_toLocaleString_def
      to_primitive_def)

lemma render_row_prim:
  assumes "get_prop entry ''id'' = Inr (Prim p_id)" and "get_prop entry ''ip'' = Inr (Prim p_ip)"
    and "get_prop entry ''name'' = Inr (Prim p_name)"
    and "get_prop entry ''device_type'' = Inr (Prim p_type)"
    and "get_prop entry ''importance'' = Inr (Prim p_imp)"
    and "get_prop entry ''last_status'' = Inr (Prim p_status)"
    and "get_prop entry ''last_ping_ms'' = Inr (Prim p_ping)"
    and "get_prop entry ''last5'' = Inr (Prim p5)" and "get_prop entry ''last60'' = Inr (Prim p60)"
    and "get_prop entry ''last_checked'' = Inr (Prim p_checked)"
  shows "render_row rt entry = Inr
     (nine_cell_row rt p_id p_ip p_name p_type p_imp p_status p_ping p5 p60 p_checked)"
proof -
  have cls: "tr_className entry = (if p_status = Str ''down'' then ''down'' else ''up'')"
    using assms(6) by (simp add: tr_className_def strict_equals_def read_prop_eq)
  show ?thesis
    unfolding render_row_def Let_def
    by (simp add: assms(6) tdIp_prim [OF assms(1,2)] tdName_prim [OF assms(3)]
        tdType_prim [OF assms(4)] tdImp_prim [OF assms(5)] tdStatus_prim [OF assms(6)]
        tdPing_prim [OF assms(7)] td5_def td60_def read_prop_eq [OF assms(8)]
        read_prop_eq [OF assms(9)] td_percent_prim tdChecked_prim [OF assms(10)] cls
        createElement_def)
qed

lemma projection_field:
  assumes "is_projection entry" and "k \<in> set projection_fields"
  shows "\<exists>p. get_prop entry k = Inr (Prim p)"
proof -
  from assms(1) obtain kvs where e: "entry = JObj kvs"
    and keys: "set (map fst kvs) = set projection_fields"
    and prims: "list_all (\<lambda>kv. is_prim (snd kv)) kvs"
    by (auto simp: is_projection_def split: jsval.splits)
  from assms(2) keys have "k \<in> set (map fst kvs)" by simp
  then obtain v where look: "map_of kvs k = Some v"
    by (metis map_of_eq_None_iff not_None_eq set_map)
  then have "(k, v) \<in> set kvs" by (rule map_of_SomeD)
  with prims have "is_prim v" by (auto simp: list_all_iff)
  then obtain p where "v = Prim p" by (cases v) auto
  with e look show ?thesis by simp
qed

lemma forEach_render_rows:
  "\<forall>e \<in> set entries. \<exists>tr. render_row rt e = Inr tr \<Longrightarrow>
   forEach_render rt entries (Element tag c as cs)
     = (Element tag c as (cs @ map (\<lambda>e. projr (render_row rt e)) entries), None)"
proof (induction entries arbitrary: cs)
  case Nil
  show ?case by simp
next
  case (Cons e es)
  then obtain tr where "render_row rt e = Inr tr" by auto
  with Cons show ?case by simp
qed

lemma table_after_successful_fetch:
  assumes "dashboardBody pg = Some (Element tag c as cs)"
    and "get_prop data ''ips'' = Inr (JArr entries)"
    and "\<forall>e \<in> set entries. \<exists>tr. render_row rt e = Inr tr"
  shows "fetchAndRender rt (FetchResolved (JsonResolved data)) pg
           = (Fulfilled,
              pg\<lparr>dashboardBody := Some (Element tag c as (map (\<lambda>e. projr (render_row rt e)) entries))\<rparr>)"
  using assms forEach_render_rows [OF assms(3), of tag c as "[]"]
  by (simp add: fetchAndRender_def try_block_def logical_or_def)

lemma projection_fields_mem:
  "''id'' \<in> set projection_fields" "''ip'' \<in> set projection_fields"
  "''name'' \<in> set projection_fields" "''device_type'' \<in> set projection_fields"
  "''importance'' \<in> set projection_fields" "''last_status'' \<in> set projection_fields"
  "''last_ping_ms'' \<in> set projection_fields" "''last5'' \<in> set projection_fields"
  "''last60'' \<in> set projection_fields" "''last_checked'' \<in> set projection_fields"
  by (simp_all add: projection_fields_def)

lemma projection_row:
  assumes "is_projection e"
  shows "\<exists>p_id p_ip p_name p_type p_imp p_status p_ping p5 p60 p_checked.
            get_prop e ''id'' = Inr (Prim p_id)
          \<and> get_prop e ''ip'' = Inr (Prim p_ip)
          \<and> get_prop e ''name'' = Inr (Prim p_name)
          \<and> get_prop e ''device_type'' = Inr (Prim p_type)
          \<and> get_prop e ''importance'' = Inr (Prim p_imp)
          \<and> get_prop e ''last_status'' = Inr (Prim p_status)
          \<and> get_prop e ''last_ping_ms'' = Inr (Prim p_ping)
          \<and> get_prop e ''last5'' = Inr (Prim p5)
          \<and> get_prop e ''last60'' = Inr (Prim p60)
          \<and> get_prop e ''last_checked'' = Inr (Prim p_checked)
          \<and> render_row rt e = Inr
               (nine_cell_row rt p_id p_ip p_name p_type p_imp p_status p_ping p5 p60 p_checked)"
proof -
  from projection_field [OF assms] projection_fields_mem
  obtain p_id p_ip p_name p_type p_imp p_status p_ping p5 p60 p_checked where g:
    "get_prop e ''id'' = Inr (Prim p_id)" "get_prop e ''ip'' = Inr (Prim p_ip)"
    "get_prop e ''name'' = Inr (Prim p_name)" "get_prop e ''device_type'' = Inr (Prim p_type)"
    "get_prop e ''importance'' = Inr (Prim p_imp)" "get_prop e ''last_status'' = Inr (Prim p_status)"
    "get_prop e ''last_ping_ms'' = Inr (Prim p_ping)" "get_prop e ''last5'' = Inr (Prim p5)"
    "get_prop e ''last60'' = Inr (Prim p60)" "get_prop e ''last_checked'' = Inr (Prim p_checked)"
    by metis
  from render_row_prim [OF g, of rt] g show ?thesis by blast
qed

text \<open>
  C6 (as amended). When the sweep returns a list of TargetProjections, objects whose
  field set is exactly \<^verbatim>\<open>id\<close>, \<^verbatim>\<open>ip\<close> (the address), \<^verbatim>\<open>name\<close>, \<^verbatim>\<open>device_type\<close>,
  \<^verbatim>\<open>importance\<close>, \<^verbatim>\<open>last_status\<close>, \<^verbatim>\<open>last_ping_ms\<close>, \<^verbatim>\<open>last5\<close>, \<^verbatim>\<open>last60\<close> and
  \<^verbatim>\<open>last_checked\<close>, the renderer, on a page that has the table body, replaces the rows
  of the table by one row for every entry of the list, in the order of the list. Every
  row has nine cells, one for each field except \<^verbatim>\<open>id\<close>, in the order address, name,
  device type, importance, status, ping, last5, last60, last checked; \<^verbatim>\<open>id\<close> has no
  cell of its own and is only the target \<^verbatim>\<open>/ip/<id>\<close> of the link in the address cell.
\<close>

theorem rows_of_returned_projections:
  assumes "dashboardBody pg = Some (Element tag c as cs)"
    and "get_prop data ''ips'' = Inr (JArr entries)"
    and "\<forall>e \<in> set entries. is_projection e"
  shows "\<exists>rows. fetchAndRender rt (FetchResolved (JsonResolved data)) pg
                  = (Fulfilled, pg\<lparr>dashboardBody := Some (Element tag c as rows)\<rparr>)
     \<and> length rows = length entries
     \<and> (\<forall>i < length entries.
          \<exists>p_id p_ip p_name p_type p_imp p_status p_ping p5 p60 p_checked.
            get_prop (entries ! i) ''id'' = Inr (Prim p_id)
          \<and> get_prop (entries ! i) ''ip'' = Inr (Prim p_ip)
          \<and> get_prop (entries ! i) ''name'' = Inr (Prim p_name)
          \<and> get_prop (entries ! i) ''device_type'' = Inr (Prim p_type)
          \<and> get_prop (entries ! i) ''importance'' = Inr (Prim p_imp)
          \<and> get_prop (entries ! i) ''last_status'' = Inr (Prim p_status)
          \<and> get_prop (entries ! i) ''last_ping_ms'' = Inr (Prim p_ping)
          \<and> get_prop (entries ! i) ''last5'' = Inr (Prim p5)
          \<and> get_prop (entries ! i) ''last60'' = Inr (Prim p60)
          \<and> get_prop (entries ! i) ''last_checked'' = Inr (Prim p_checked)
          \<and> rows ! i =
               nine_cell_row rt p_id p_ip p_name p_type p_imp p_status p_ping p5 p60 p_checked
          \<and> length (childNodes (rows ! i)) = 9)"
proof -
  let ?rows = "map (\<lambda>e. projr (render_row rt e)) entries"
  have ok: "\<forall>e \<in> set entries. \<exists>tr. render_row rt e = Inr tr"
    using assms(3) projection_row [of _ rt] by blast
  have "fetchAndRender rt (FetchResolved (JsonResolved data)) pg
          = (Fulfilled, pg\<lparr>dashboardBody := Some (Element tag c as ?rows)\<rparr>)"
    by (rule table_after_successful_fetch [OF assms(1,2) ok])
  moreover have "length ?rows = length entries" by simp
  moreover have "\<exists>p_id p_ip p_name p_type p_imp p_status p_ping p5 p60 p_checked.
            get_prop (entries ! i) ''id'' = Inr (Prim p_id)
          \<and> get_prop (entries ! i) ''ip'' = Inr (Prim p_ip)
          \<and> get_prop (entries ! i) ''name'' = Inr (Prim p_name)
          \<and> get_prop (entries ! i) ''device_type'' = Inr (Prim p_type)
          \<and> get_prop (entries ! i) ''importance'' = Inr (Prim p_imp)
          \<and> get_prop (entries ! i) ''last_status'' = Inr (Prim p_status)
          \<and> get_prop (entries ! i) ''last_ping_ms'' = Inr (Prim p_ping)
          \<and> get_prop (entries ! i) ''last5'' = Inr (Prim p5)
          \<and> get_prop (entries ! i) ''last60'' = Inr (Prim p60)
          \<and> get_prop (entries ! i) ''last_checked'' = Inr (Prim p_checked)
          \<and> ?rows ! i =
               nine_cell_row rt p_id p_ip p_name p_type p_imp p_status p_ping p5 p60 p_checked
          \<and> length (childNodes (?rows ! i)) = 9"
    if "i < length entries" for i
  proof -
    from that have "is_projection (entries ! i)" using assms(3) by simp
    from projection_row [OF this, of rt]
    obtain p_id p_ip p_name p_type p_imp p_status p_ping p5 p60 p_checked where g:
      "get_prop (entries ! i) ''id'' = Inr (Prim p_id)"
      "get_prop (entries ! i) ''ip'' = Inr (Prim p_ip)"
      "get_prop (entries ! i) ''name'' = Inr (Prim p_name)"
      "get_prop (entries ! i) ''device_type'' = Inr (Prim p_type)"
      "get_prop (entries ! i) ''importance'' = Inr (Prim p_imp)"
      "get_prop (entries ! i) ''last_status'' = Inr (Prim p_status)"
      "get_prop (entries ! i) ''last_ping_ms'' = Inr (Prim p_ping)"
      "get_prop (entries ! i) ''last5'' = Inr (Prim p5)"
      "get_prop (entries ! i) ''last60'' = Inr (Prim p60)"
      "get_prop (entries ! i) ''last_checked'' = Inr (Prim p_checked)"
      and r: "render_row rt (entries ! i) = Inr
               (nine_cell_row rt p_id p_ip p_name p_type p_imp p_status p_ping p5 p60 p_checked)"
      by blast
    have row: "?rows ! i =
               nine_cell_row rt p_id p_ip p_name p_type p_imp p_status p_ping p5 p60 p_checked"
      using that r by simp
    have "length (childNodes (?rows ! i)) = 9"
      unfolding row by simp
    with g row show ?thesis by blast
  qed
  ultimately show ?thesis by blast
qed

lemma sample_reads:
  "get_prop sample_entry ''id'' = Inr (JNum 7)"
  "get_prop sample_entry ''ip'' = Inr (JStr ''10.0.0.1'')"
  "get_prop sample_entry ''name'' = Inr (JStr ''gw'')"
  "get_prop sample_entry ''device_type'' = Inr JNull"
  "get_prop sample_entry ''importance'' = Inr (JStr ''important'')"
  "get_prop sample_entry ''last_status'' = Inr (JStr ''down'')"
  "get_prop sample_entry ''last_ping_ms'' = Inr JNull"
  "get_prop sample_entry ''last5'' = Inr (JNum 67)"
  "get_prop sample_entry ''last60'' = Inr (JNum 95)"
  "get_prop sample_entry ''last_checked'' = Inr JNull"
  by (simp_all add: sample_entry_def)

lemma decimal_examples: "decimal 7 = ''7''" "decimal 67 = ''67''" "decimal 95 = ''95''"
  by (simp_all add: decimal.simps)

lemma render_sample_entry:
  "render_row stub_runtime sample_entry = Inr
     (Element ''tr'' ''down'' []
       [Element ''td'' [] []
          [Element ''a'' [] [(''href'', ''/ip/7''), (''target'', ''_blank'')] [Text ''10.0.0.1'']],
        Element ''td'' [] [] [Text ''gw''],
        Element ''td'' [] [] [Text ''-''],
        Element ''td'' [] [] [Text ''important''],
        Element ''td'' ''status'' [] [Text ''down''],
        Element ''td'' [] [] [Text ''-''],
        Element ''td'' ''bad'' [] [Text ''67%''],
        Element ''td'' ''good'' [] [Text ''95%''],
        Element ''td'' [] [] [Text ''-'']])"
  by (simp add: render_row_prim [OF sample_reads] text_nodes_def prim_text_def stub_runtime_def
      decimal_examples)

lemma is_projection_sample: "is_projection sample_entry"
  by (simp add: is_projection_def sample_entry_def projection_fields_def)

lemma get_prop_total:
  assumes "get_prop entry k' = Inr st"
  shows "get_prop entry k = Inr (read_prop entry k)"
proof (cases "get_prop entry k")
  case (Inl e)
  then have "entry = JNull \<or> entry = JUndefined" by (simp add: get_prop_Inl_iff)
  with assms show ?thesis by auto
next
  case (Inr x)
  then show ?thesis by (simp add: read_prop_def)
qed

lemma render_row_primitive_fields:
  assumes "get_prop entry k' = Inr st"
    and "\<forall>k \<in> set projection_fields. is_prim (read_prop entry k)"
  shows "\<exists>tr. render_row rt entry = Inr tr"
proof -
  have "\<exists>p. get_prop entry k = Inr (Prim p)" if "k \<in> set projection_fields" for k
  proof -
    from assms(2) that have "is_prim (read_prop entry k)" by blast
    then obtain p where "read_prop entry k = Prim p" by (cases "read_prop entry k") auto
    with get_prop_total [OF assms(1), of k] show ?thesis by simp
  qed
  from this projection_fields_mem
  obtain p_id p_ip p_name p_type p_imp p_status p_ping p5 p60 p_checked where g:
    "get_prop entry ''id'' = Inr (Prim p_id)" "get_prop entry ''ip'' = Inr (Prim p_ip)"
    "get_prop entry ''name'' = Inr (Prim p_name)" "get_prop entry ''device_type'' = Inr (Prim p_type)"
    "get_prop entry ''importance'' = Inr (Prim p_imp)" "get_prop entry ''last_status'' = Inr (Prim p_status)"
    "get_prop entry ''last_ping_ms'' = Inr (Prim p_ping)" "get_prop entry ''last5'' = Inr (Prim p5)"
    "get_prop entry ''last60'' = Inr (Prim p60)" "get_prop entry ''last_checked'' = Inr (Prim p_checked)"
    by metis
  from render_row_prim [OF g, of rt] show ?thesis by blast
qed

text \<open>
  C9. For every rendered entry (the callback has returned a row for it), the row has
  the class \<^verbatim>\<open>down\<close> exactly when \<^verbatim>\<open>last_status\<close> is the string \<^verbatim>\<open>'down'\<close>, and the
  class \<^verbatim>\<open>up\<close> for every other value of \<^verbatim>\<open>last_status\<close>: \<^verbatim>\<open>'unknown'\<close>, \<^verbatim>\<open>null\<close> and
  a missing property get the class of a healthy target. An entry is rendered whenever
  the ten properties that the callback reads are primitives, missing ones included.
\<close>

theorem row_class_down_iff_last_status_down:
  assumes "get_prop entry ''last_status'' = Inr st"
  shows "(\<forall>tr. render_row rt entry = Inr tr \<longrightarrow>
            (className tr = ''down'') = (st = JStr ''down'')
          \<and> (className tr = ''up'') = (st \<noteq> JStr ''down''))
       \<and> ((\<forall>k \<in> set projection_fields. is_prim (read_prop entry k)) \<longrightarrow>
            (\<exists>tr. render_row rt entry = Inr tr))"
  using assms render_row_primitive_fields [OF assms, of rt]
  by (simp add: render_row_class tr_className_down_iff tr_className_up_iff read_prop_eq)

theorem row_class_examples:
  "get_prop sample_entry ''last_status'' = Inr (JStr ''down'')
   \<and> (\<exists>tr. render_row stub_runtime sample_entry = Inr tr \<and> className tr = ''down'')
   \<and> (\<exists>tr. render_row stub_runtime (JObj [(''last_status'', JStr ''unknown'')]) = Inr tr
          \<and> className tr = ''up'')
   \<and> (\<exists>tr. render_row stub_runtime (JObj [(''id'', JNum 1)]) = Inr tr \<and> className tr = ''up'')"
proof -
  have a: "get_prop (JObj [(''last_status'', JStr ''unknown'')]) ''last_status'' = Inr (JStr ''unknown'')"
    by simp
  have b: "get_prop (JObj [(''id'', JNum 1)]) ''last_status'' = Inr JUndefined"
    by simp
  have p1: "\<forall>k \<in> set projection_fields. is_prim (read_prop sample_entry k)"
    by (simp add: projection_fields_def read_prop_def sample_entry_def)
  have p2: "\<forall>k \<in> set projection_fields.
              is_prim (read_prop (JObj [(''last_status'', JStr ''unknown'')]) k)"
    by (simp add: projection_fields_def read_prop_def)
  have p3: "\<forall>k \<in> set projection_fields. is_prim (read_prop (JObj [(''id'', JNum 1)]) k)"
    by (simp add: projection_fields_def read_prop_def)
  from row_class_down_iff_last_status_down [OF sample_reads(6), of stub_runtime] p1
  have c1: "\<exists>tr. render_row stub_runtime sample_entry = Inr tr \<and> className tr = ''down''"
    by auto
  from row_class_down_iff_last_status_down [OF a, of stub_runtime] p2
  have c2: "\<exists>tr. render_row stub_runtime (JObj [(''last_status'', JStr ''unknown'')]) = Inr tr
          \<and> className tr = ''up''"
    by auto
  from row_class_down_iff_last_status_down [OF b, of stub_runtime] p3
  have c3: "\<exists>tr. render_row stub_runtime (JObj [(''id'', JNum 1)]) = Inr tr \<and> className tr = ''up''"
    by auto
  from sample_reads(6) c1 c2 c3 show ?thesis by blast
qed

theorem percentage_class_examples:
  "get_prop sample_entry ''last5'' = Inr (JNum 67)
   \<and> get_prop sample_entry ''last60'' = Inr (JNum 95)
   \<and> (\<exists>tr. render_row stub_runtime sample_entry = Inr tr
          \<and> className (childNodes tr ! 6) = ''bad'' \<and> className (childNodes tr ! 7) = ''good'')"
  using percentage_class_threshold_95 [OF render_sample_entry sample_reads(8) sample_reads(9), of 67 95]
  by (simp add: sample_reads render_sample_entry)

theorem rows_of_sample_response:
  "dashboardBody sample_page = Some (Element ''tbody'' [] [(''id'', ''dashboard-body'')] [Text ''old''])
   \<and> get_prop sample_response ''ips'' = Inr (JArr [sample_entry])
   \<and> is_projection sample_entry
   \<and> (\<exists>rows. fetchAndRender stub_runtime (FetchResolved (JsonResolved sample_response)) sample_page
          = (Fulfilled,
             sample_page\<lparr>dashboardBody := Some (Element ''tbody'' [] [(''id'', ''dashboard-body'')] rows)\<rparr>)
        \<and> length rows = 1 \<and> length (childNodes (rows ! 0)) = 9)"
proof -
  have a: "dashboardBody sample_page = Some (Element ''tbody'' [] [(''id'', ''dashboard-body'')] [Text ''old''])"
    by (simp add: sample_page_def)
  have b: "get_prop sample_response ''ips'' = Inr (JArr [sample_entry])"
    by (simp add: sample_response_def)
  have c: "\<forall>e \<in> set [sample_entry]. is_projection e"
    by (simp add: is_projection_sample)
  from rows_of_returned_projections [OF a b c, of stub_runtime] a b is_projection_sample show ?thesis
    by auto
qed

text \<open>
  C6 as stated asks for one cell per listed field, ten in all; the row of the sample
  entry has nine.
\<close>

theorem row_has_not_one_cell_per_field:
  "\<not> (\<exists>tr. render_row stub_runtime sample_entry = Inr tr
          \<and> length (childNodes tr) = length projection_fields)"
  by (simp add: render_sample_entry projection_fields_def)

lemma tdPing_null:
  "get_prop entry ''last_ping_ms'' = Inr JNull \<Longrightarrow>
   tdPing rt entry = Inr (Element ''td'' [] [] [Text ''-''])"
  by (simp add: tdPing_prim text_nodes_def prim_text_def)

lemma tdPing_number:
  "get_prop entry ''last_ping_ms'' = Inr (JNum x) \<Longrightarrow>
   tdPing rt entry = Inr (Element ''td'' [] [] (text_nodes (number_to_string rt x)))"
  by (simp add: tdPing_prim prim_text_def)

text \<open>
  An entry that the callback does not render: the \<^verbatim>\<open>id\<close> is an object with a
  property \<^verbatim>\<open>toString\<close> of its own, and the template literal of line 18 throws.
\<close>

lemma own_toString_throws:
  "render_row rt (JObj [(''id'', JObj [(''toString'', JNum 5)])]) = Inl TypeError"
  by (simp add: render_row_def tdIp_def read_prop_def)

section \<open>Properties of \<^verbatim>\<open>fetchAndRender\<close>\<close>

lemma try_block_rejected:
  "try_block rt FetchRejected body = (body, Some FetchError)"
  "try_block rt (FetchResolved JsonRejected) body = (body, Some JsonError)"
  by (simp_all add: try_block_def)

lemma fetchAndRender_fulfilled: "fst (fetchAndRender rt outcome pg) = Fulfilled"
  by (simp add: fetchAndRender_def split: prod.splits option.splits)

text \<open>
  C8. When \<^verbatim>\<open>fetch\<close> rejects, or the response arrives and \<^verbatim>\<open>resp.json()\<close> rejects,
  \<^verbatim>\<open>fetchAndRender\<close> does not throw to its caller (its promise is fulfilled) and the
  table body is what it was: nothing but one line of the console log changes.
\<close>

theorem failed_fetch_leaves_table:
  assumes "outcome = FetchRejected \<or> outcome = FetchResolved JsonRejected"
  shows "fst (fetchAndRender rt outcome pg) = Fulfilled
       \<and> dashboardBody (snd (fetchAndRender rt outcome pg)) = dashboardBody pg
       \<and> btnRefresh (snd (fetchAndRender rt outcome pg)) = btnRefresh pg
       \<and> (\<exists>err. console (snd (fetchAndRender rt outcome pg))
                  = console pg @ [(''Error fetching statuses'', err)])"
  using assms by (auto simp: fetchAndRender_def try_block_rejected)

theorem failed_fetch_example:
  "fst (fetchAndRender stub_runtime (FetchResolved JsonRejected)
          \<lparr>dashboardBody = Some (Element ''tbody'' [] [] [Element ''tr'' ''up'' [] []]),
           btnRefresh = None, console = []\<rparr>) = Fulfilled
   \<and> dashboardBody (snd (fetchAndRender stub_runtime (FetchResolved JsonRejected)
          \<lparr>dashboardBody = Some (Element ''tbody'' [] [] [Element ''tr'' ''up'' [] []]),
           btnRefresh = None, console = []\<rparr>))
      = Some (Element ''tbody'' [] [] [Element ''tr'' ''up'' [] []])"
  using failed_fetch_leaves_table
          [of "FetchResolved JsonRejected" stub_runtime
              "\<lparr>dashboardBody = Some (Element ''tbody'' [] [] [Element ''tr'' ''up'' [] []]),
                btnRefresh = None, console = []\<rparr>"]
  by simp

section \<open>Properties of the triggers\<close>

lemma call_fetchAndRender_simps:
  "in_flight (call_fetchAndRender t w) = in_flight w @ [t]"
  "sent (call_fetchAndRender t w) = sent w @ [t]"
  "doc (call_fetchAndRender t w) = doc w"
  "timer_ms (call_fetchAndRender t w) = timer_ms w"
  "load_listener (call_fetchAndRender t w) = load_listener w"
  "click_listener (call_fetchAndRender t w) = click_listener w"
  "interval (call_fetchAndRender t w) = interval w"
  by (simp_all add: call_fetchAndRender_def)

lemma settle_keeps:
  "sent (settle rt i outcome w) = sent w"
  "timer_ms (settle rt i outcome w) = timer_ms w"
  "load_listener (settle rt i outcome w) = load_listener w"
  "click_listener (settle rt i outcome w) = click_listener w"
  "interval (settle rt i outcome w) = interval w"
  by (simp_all add: settle_def)

lemma run_Nil: "run rt [] w = w"
  by (simp add: run_def)

lemma run_Cons: "run rt (ev # evs) w = run rt evs (step rt ev w)"
  by (simp add: run_def)

lemma step_keeps_listeners:
  "load_listener (step rt ev w) = load_listener w"
  "click_listener (step rt ev w) = click_listener w"
  "interval (step rt ev w) = interval w"
  by (cases ev; simp add: call_fetchAndRender_simps settle_keeps split: option.splits)+

lemma run_keeps_listeners:
  "load_listener (run rt evs w) = load_listener w
   \<and> click_listener (run rt evs w) = click_listener w
   \<and> interval (run rt evs w) = interval w"
  by (induction evs arbitrary: w) (simp_all add: run_Nil run_Cons step_keeps_listeners)

lemma main_listeners:
  "load_listener (main body btn) = True"
  "click_listener (main body btn) = (btn \<noteq> None)"
  "interval (main body btn) = Some interval_ms"
  "timer_ms (main body btn) = 0"
  "sent (main body btn) = []"
  by (simp_all add: main_def loaded_document_def Let_def)

lemma step_timer_count:
  assumes "interval w = Some interval_ms" and "timer_ms w < interval_ms"
  shows "timer_ms (step rt ev w) < interval_ms
    \<and> count_list (sent (step rt ev w)) Timer * interval_ms + timer_ms (step rt ev w)
       = count_list (sent w) Timer * interval_ms + timer_ms w + (if ev = Tick then 1 else 0)"
proof (cases ev)
  case Tick
  then show ?thesis using assms by (auto simp: call_fetchAndRender_simps interval_ms_def)
qed (use assms in \<open>auto simp: call_fetchAndRender_simps settle_keeps\<close>)

lemma run_timer_count:
  "interval w = Some interval_ms \<Longrightarrow> timer_ms w < interval_ms \<Longrightarrow>
   timer_ms (run rt evs w) < interval_ms
    \<and> count_list (sent (run rt evs w)) Timer * interval_ms + timer_ms (run rt evs w)
       = count_list (sent w) Timer * interval_ms + timer_ms w + count_list evs Tick"
proof (induction evs arbitrary: w)
  case Nil
  then show ?case by (simp add: run_Nil)
next
  case (Cons ev evs)
  from step_timer_count [OF Cons.prems, of rt ev]
  have a: "timer_ms (step rt ev w) < interval_ms"
    and b: "count_list (sent (step rt ev w)) Timer * interval_ms + timer_ms (step rt ev w)
       = count_list (sent w) Timer * interval_ms + timer_ms w + (if ev = Tick then 1 else 0)"
    by simp_all
  have c: "interval (step rt ev w) = Some interval_ms"
    using Cons.prems(1) by (simp add: step_keeps_listeners)
  from Cons.IH [OF c a] b show ?case by (simp add: run_Cons)
qed

lemma timer_requests:
  "count_list (sent (run rt evs (main body btn))) Timer = count_list evs Tick div interval_ms"
proof -
  let ?w = "run rt evs (main body btn)"
  have "timer_ms (main body btn) < interval_ms" by (simp add: main_listeners interval_ms_def)
  from run_timer_count [OF main_listeners(3) this, of rt evs]
  have lt: "timer_ms ?w < interval_ms"
    and eq: "count_list (sent ?w) Timer * interval_ms + timer_ms ?w = count_list evs Tick"
    by (simp_all add: main_listeners)
  have "count_list evs Tick div interval_ms
          = (count_list (sent ?w) Timer * interval_ms + timer_ms ?w) div interval_ms"
    by (simp only: eq)
  also have "\<dots> = count_list (sent ?w) Timer"
    using lt by simp
  finally show ?thesis by simp
qed

lemma browse_Nil: "browse rt [] b = b"
  by (simp add: browse_def)

lemma browse_Cons: "browse rt (ev # evs) b = browse rt evs (browser_step rt ev b)"
  by (simp add: browse_def)

lemma browse_no_page: "tab b = None \<Longrightarrow> browse rt (map In_page evs) b = b"
  by (induction evs) (simp_all add: browse_Nil browse_Cons)

lemma browse_in_page:
  "tab b = Some w \<Longrightarrow> browse rt (map In_page evs) b = b\<lparr>tab := Some (run rt evs w)\<rparr>"
  by (induction evs arbitrary: b w) (simp_all add: browse_Nil browse_Cons run_Nil run_Cons)

lemma browse_open_page:
  "requests (browse rt (Open_page body btn # map In_page evs) no_page)
     = sent (run rt evs (main body btn))"
  by (simp add: browse_Cons no_page_def requests_of_tab_def requests_def
      browse_in_page [where w = "main body btn"])

lemma browse_append: "browse rt (xs @ ys) b = browse rt ys (browse rt xs b)"
  by (simp add: browse_def)

lemma browse_closed_page:
  "requests (browse rt (Open_page body btn # map In_page evs @ Close_page # map In_page evs') no_page)
     = sent (run rt evs (main body btn))"
proof -
  define b where "b = browser_step rt (Open_page body btn) no_page"
  define c where "c = browser_step rt Close_page (browse rt (map In_page evs) b)"
  have t: "tab b = Some (main body btn)" and p: "posted b = []"
    by (simp_all add: b_def no_page_def requests_of_tab_def)
  have open_: "browse rt (map In_page evs) b = b\<lparr>tab := Some (run rt evs (main body btn))\<rparr>"
    by (rule browse_in_page [OF t])
  have closed: "tab c = None" and posted_c: "posted c = sent (run rt evs (main body btn))"
    by (simp_all add: c_def open_ p requests_of_tab_def)
  have "browse rt (Open_page body btn # map In_page evs @ Close_page # map In_page evs') no_page
          = browse rt (map In_page evs') c"
    by (simp add: browse_Cons browse_append b_def c_def del: browser_step.simps)
  also have "\<dots> = c"
    by (rule browse_no_page [OF closed])
  finally show ?thesis
    by (simp add: requests_def requests_of_tab_def closed posted_c)
qed

lemma count_list_replicate: "count_list (replicate n x) x = n"
  by (induction n) auto

lemma browse_without_page: "browse rt (map In_page evs) no_page = no_page"
  by (rule browse_no_page) (simp add: no_page_def)

lemma requests_no_page: "requests no_page = []"
  by (simp add: no_page_def requests_def requests_of_tab_def)

text \<open>
  C5 as stated has the timer fire whether a caller is there or not. The timer is the
  page's: with no dashboard page open, thirty seconds pass and no request is issued.
\<close>

theorem no_page_no_timer_request:
  "\<not> (Timer \<in> set (requests (browse stub_runtime (map In_page (replicate 30000 Tick)) no_page)))"
  by (simp only: browse_without_page requests_no_page) simp

text \<open>
  C5 (as amended). On the page that the script has set up, after any events: the
  \<^verbatim>\<open>load\<close> event issues a sweep request; a click on the refresh button issues one when
  the page has the button, and nothing happens on a page without it; and the interval
  timer has issued one request for every full 30000 milliseconds that have passed
  since the script ran, whatever the loads, clicks and responses in between. These are
  the requests of a browser that opens the page. Once the page is closed nothing more
  is issued, and a browser with no dashboard page open issues no request, however much
  time passes.
\<close>

theorem sweep_triggers:
  assumes "w = run rt evs (main body btn)"
  shows "sent (step rt Dispatch_load w) = sent w @ [Load]
       \<and> (btn \<noteq> None \<longrightarrow> sent (step rt Dispatch_click w) = sent w @ [Click])
       \<and> (btn = None \<longrightarrow> step rt Dispatch_click w = w)
       \<and> count_list (sent w) Timer = count_list evs Tick div 30000
       \<and> requests (browse rt (Open_page body btn # map In_page evs) no_page) = sent w
       \<and> requests (browse rt (Open_page body btn # map In_page evs @ Close_page # map In_page evs')
                     no_page) = sent w
       \<and> requests (browse rt (map In_page evs) no_page) = []"
proof -
  have l: "load_listener w = True" "click_listener w = (btn \<noteq> None)"
    unfolding assms using run_keeps_listeners [of rt evs "main body btn"]
    by (simp_all add: main_listeners)
  have t: "count_list (sent w) Timer = count_list evs Tick div 30000"
    unfolding assms using timer_requests [of rt evs body btn] by (simp add: interval_ms_def)
  have n: "requests (browse rt (map In_page evs) no_page) = []"
    by (simp only: browse_without_page requests_no_page)
  have c1: "sent (step rt Dispatch_load w) = sent w @ [Load]"
    using l by (simp add: call_fetchAndRender_simps)
  have c2: "btn \<noteq> None \<longrightarrow> sent (step rt Dispatch_click w) = sent w @ [Click]"
    using l by (simp add: call_fetchAndRender_simps)
  have c3: "btn = None \<longrightarrow> step rt Dispatch_click w = w"
    using l by simp
  have c5: "requests (browse rt (Open_page body btn # map In_page evs) no_page) = sent w"
    unfolding assms by (rule browse_open_page)
  have c6: "requests (browse rt (Open_page body btn # map In_page evs @ Close_page # map In_page evs')
                        no_page) = sent w"
    unfolding assms by (rule browse_closed_page)
  from c1 c2 c3 t c5 c6 n show ?thesis by blast
qed

lemma load_request:
  "sent (run rt [Dispatch_load] (main body btn)) = [Load]"
  by (simp add: run_def main_def loaded_document_def call_fetchAndRender_def Let_def)

theorem sweep_triggers_example:
  "sent (step stub_runtime Dispatch_load
      (run stub_runtime (Dispatch_load # replicate 60000 Tick) (main None (Some (createElement ''button'')))))
     = sent (run stub_runtime (Dispatch_load # replicate 60000 Tick)
          (main None (Some (createElement ''button'')))) @ [Load]
   \<and> sent (step stub_runtime Dispatch_click
      (run stub_runtime (Dispatch_load # replicate 60000 Tick) (main None (Some (createElement ''button'')))))
     = sent (run stub_runtime (Dispatch_load # replicate 60000 Tick)
          (main None (Some (createElement ''button'')))) @ [Click]
   \<and> step stub_runtime Dispatch_click (run stub_runtime [Dispatch_load] (main None None))
     = run stub_runtime [Dispatch_load] (main None None)
   \<and> count_list (sent (run stub_runtime (Dispatch_load # replicate 60000 Tick)
          (main None (Some (createElement ''button''))))) Timer = 2
   \<and> requests (browse stub_runtime (map In_page (Dispatch_load # replicate 60000 Tick)) no_page) = []
   \<and> requests (browse stub_runtime
        (Open_page None None # map In_page [Dispatch_load] @ Close_page # map In_page (replicate 30000 Tick))
        no_page) = [Load]"
  using sweep_triggers [of "run stub_runtime (Dispatch_load # replicate 60000 Tick) (main None (Some (createElement ''button'')))"
               stub_runtime "Dispatch_load # replicate 60000 Tick" None "Some (createElement ''button'')"]
        sweep_triggers [of "run stub_runtime [Dispatch_load] (main None None)" stub_runtime "[Dispatch_load]" None None
               "replicate 30000 Tick"]
  by (simp add: count_list_replicate load_request)

text \<open>
  The script itself has no guard: after the load event and a click, two calls of
  \<^verbatim>\<open>fetchAndRender\<close> are waiting for their responses. What happens to the two
  requests is the server's business.
\<close>

lemma script_issues_overlapping_requests:
  "in_flight (run rt [Dispatch_load, Dispatch_click] (main body (Some btn))) = [Load, Click]"
  by (simp add: run_def main_def loaded_document_def call_fetchAndRender_def)

section \<open>Properties of the single-flight guard\<close>

lemma request_sweep_guard:
  assumes "length (running s) \<le> 1" and "running s = [] \<longrightarrow> waiting s = []"
    and "p = Queue_once \<longrightarrow> length (waiting s) \<le> 1"
  shows "length (running (request_sweep p t s)) \<le> 1"
    and "running (request_sweep p t s) = [] \<longrightarrow> waiting (request_sweep p t s) = []"
    and "p = Queue_once \<longrightarrow> length (waiting (request_sweep p t s)) \<le> 1"
  using assms by (auto simp: request_sweep_def split: policy.splits)

lemma sweep_finished_guard:
  assumes "length (running s) \<le> 1" and "running s = [] \<longrightarrow> waiting s = []"
    and "p = Queue_once \<longrightarrow> length (waiting s) \<le> 1"
  shows "length (running (sweep_finished s)) \<le> 1"
    and "running (sweep_finished s) = [] \<longrightarrow> waiting (sweep_finished s) = []"
    and "p = Queue_once \<longrightarrow> length (waiting (sweep_finished s)) \<le> 1"
  using assms by (auto simp: sweep_finished_def split: list.splits)

lemma serve_Nil: "serve p [] s = s"
  by (simp add: serve_def)

lemma serve_Cons: "serve p (ev # evs) s = serve p evs (serve_step p ev s)"
  by (simp add: serve_def)

lemma serve_guard:
  assumes "length (running s) \<le> 1" and "running s = [] \<longrightarrow> waiting s = []"
    and "p = Queue_once \<longrightarrow> length (waiting s) \<le> 1"
  shows "length (running (serve p evs s)) \<le> 1
       \<and> (running (serve p evs s) = [] \<longrightarrow> waiting (serve p evs s) = [])
       \<and> (p = Queue_once \<longrightarrow> length (waiting (serve p evs s)) \<le> 1)"
  using assms
proof (induction evs arbitrary: s)
  case Nil
  then show ?case by (simp add: serve_Nil)
next
  case (Cons ev evs)
  show ?case
  proof (cases ev)
    case (Request t)
    from request_sweep_guard [OF Cons.prems, of t] Cons.IH [of "request_sweep p t s"] Request
    show ?thesis by (simp add: serve_Cons)
  next
    case Finished
    from sweep_finished_guard [OF Cons.prems] Cons.IH [of "sweep_finished s"] Finished
    show ?thesis by (simp add: serve_Cons)
  qed
qed

text \<open>
  C1. Whatever requests the triggers send (the interval timer, the page load, the
  refresh button) and whenever the sweeps finish, at most one sweep is executing. A
  request that arrives while no sweep is active starts its sweep; one that arrives
  while a sweep is active starts none: it is skipped, or queued (under the queue-once
  policy at most one request is queued), or made to wait; and when the active sweep
  finishes, the first request waiting, if any, starts its sweep.
\<close>

theorem sweeps_never_overlap:
  assumes "s = serve p evs idle"
  shows "length (running s) \<le> 1
       \<and> (running s = [] \<longrightarrow> running (request_sweep p t s) = [t])
       \<and> (running s \<noteq> [] \<longrightarrow>
            running (request_sweep p t s) = running s
            \<and> (skipped (request_sweep p t s) = skipped s @ [t]
                 \<and> waiting (request_sweep p t s) = waiting s
               \<or> waiting (request_sweep p t s) = waiting s @ [t]
                 \<and> skipped (request_sweep p t s) = skipped s)
            \<and> (p = Skip \<longrightarrow> skipped (request_sweep p t s) = skipped s @ [t])
            \<and> (p = Queue_once \<longrightarrow> length (waiting (request_sweep p t s)) \<le> 1)
            \<and> (p = Wait \<longrightarrow> waiting (request_sweep p t s) = waiting s @ [t]))
       \<and> running (sweep_finished s) = take 1 (waiting s)
       \<and> waiting (sweep_finished s) = drop 1 (waiting s)"
proof -
  have "length (running idle) \<le> 1" "running idle = [] \<longrightarrow> waiting idle = []"
    "p = Queue_once \<longrightarrow> length (waiting idle) \<le> 1"
    by (simp_all add: idle_def)
  from serve_guard [OF this, of evs]
  have g: "length (running s) \<le> 1" "running s = [] \<longrightarrow> waiting s = []"
    "p = Queue_once \<longrightarrow> length (waiting s) \<le> 1"
    by (simp_all add: assms)
  have idle_start: "running s = [] \<longrightarrow> running (request_sweep p t s) = [t]"
    using g by (simp add: request_sweep_def)
  have busy: "running s \<noteq> [] \<longrightarrow>
            running (request_sweep p t s) = running s
            \<and> (skipped (request_sweep p t s) = skipped s @ [t]
                 \<and> waiting (request_sweep p t s) = waiting s
               \<or> waiting (request_sweep p t s) = waiting s @ [t]
                 \<and> skipped (request_sweep p t s) = skipped s)
            \<and> (p = Skip \<longrightarrow> skipped (request_sweep p t s) = skipped s @ [t])
            \<and> (p = Queue_once \<longrightarrow> length (waiting (request_sweep p t s)) \<le> 1)
            \<and> (p = Wait \<longrightarrow> waiting (request_sweep p t s) = waiting s @ [t])"
    using g by (cases p) (auto simp: request_sweep_def)
  have tl: "tl (running s) = []"
    using g(1) by (cases "running s") auto
  have fin: "running (sweep_finished s) = take 1 (waiting s)"
    "waiting (sweep_finished s) = drop 1 (waiting s)"
    using tl g(2) by (auto simp: sweep_finished_def split: list.splits)
  from g(1) idle_start busy fin show ?thesis by blast
qed

theorem sweeps_never_overlap_example:
  "running (serve Skip sample_requests idle) = [Load]
   \<and> skipped (serve Skip sample_requests idle) = [Click, Timer]
   \<and> running (serve Queue_once sample_requests idle) = [Load]
   \<and> waiting (serve Queue_once sample_requests idle) = [Click]
   \<and> skipped (serve Queue_once sample_requests idle) = [Timer]
   \<and> running (serve Wait sample_requests idle) = [Load]
   \<and> waiting (serve Wait sample_requests idle) = [Click, Timer]
   \<and> running (request_sweep Wait Load (serve Wait sample_requests idle)) = [Load]
   \<and> waiting (request_sweep Wait Load (serve Wait sample_requests idle)) = [Click, Timer, Load]
   \<and> running (sweep_finished (serve Wait sample_requests idle)) = [Click]
   \<and> waiting (sweep_finished (serve Wait sample_requests idle)) = [Timer]"
  using sweeps_never_overlap [of "serve Wait sample_requests idle" Wait sample_requests Load]
  by (simp add: sample_requests_def serve_def idle_def request_sweep_def)

section \<open>Properties of the schema\<close>

lemma fold_max_ge_init: "(a::nat) \<le> fold max xs a"
proof (induction xs arbitrary: a)
  case Nil
  then show ?case by simp
next
  case (Cons x xs)
  have "a \<le> max x a" by simp
  also have "\<dots> \<le> fold max xs (max x a)" by (rule Cons.IH)
  finally show ?case by simp
qed

lemma fold_max_ge: "x \<in> set xs \<Longrightarrow> x \<le> fold max xs (a::nat)"
proof (induction xs arbitrary: a)
  case Nil
  then show ?case by simp
next
  case (Cons y ys)
  show ?case
  proof (cases "x = y")
    case True
    have "x \<le> max y a" using True by simp
    also have "\<dots> \<le> fold max ys (max y a)" by (rule fold_max_ge_init)
    finally show ?thesis by simp
  next
    case False
    with Cons.prems have "x \<in> set ys" by simp
    then show ?thesis using Cons.IH by simp
  qed
qed

lemma next_rowid_fresh: "next_rowid seq ids \<notin> set ids"
proof
  assume "next_rowid seq ids \<in> set ids"
  then have "next_rowid seq ids \<le> fold max ids 0" by (rule fold_max_ge)
  then show False by (simp add: next_rowid_def)
qed

subsection \<open>The keys of ips\<close>

lemma insert_ips_keys: "keys_ok db \<Longrightarrow> insert_ips c a n t m r db = Inr db' \<Longrightarrow> keys_ok db'"
  using next_rowid_fresh [of "ips_seq db" "map ips_id (ips db)"]
  by (auto simp: keys_ok_def insert_ips_def Let_def split: option.splits conflict.splits if_splits)

lemma map_ips_id_update:
  "map ips_id (map (\<lambda>r. if ips_id r = i then r\<lparr>ip := a, name := n, device_type := t, importance := m, remark := k\<rparr> else r) rs) = map ips_id rs"
  by (induction rs) auto

lemma distinct_map_update:
  assumes "distinct (map ip rs)" "a \<notin> set (map ip (filter (\<lambda>r. ips_id r \<noteq> i) rs))" "distinct (map ips_id rs)"
  shows "distinct (map ip (map (\<lambda>r. if ips_id r = i then r\<lparr>ip := a, name := n, device_type := t, importance := m, remark := k\<rparr> else r) rs))"
  using assms
proof (induction rs)
  case Nil
  then show ?case by simp
next
  case (Cons r rs)
  then show ?case
    by (auto simp: image_iff split: if_splits)
qed

lemma update_ips_rows:
  assumes "update_ips i a n t m k db = Inr db'"
  shows "db' = db \<or> (\<exists>x. a = Some x
           \<and> x \<notin> set (map ip (filter (\<lambda>r. ips_id r \<noteq> i) (ips db)))
           \<and> db' = db\<lparr>ips := map (\<lambda>r. if ips_id r = i
                 then r\<lparr>ip := x, name := n, device_type := t, importance := m, remark := k\<rparr>
                 else r) (ips db)\<rparr>)"
  using assms by (auto simp: update_ips_def split: option.splits if_splits)

lemma update_ips_keys:
  assumes ok: "keys_ok db" and upd: "update_ips i a n t m k db = Inr db'"
  shows "keys_ok db'"
proof -
  from update_ips_rows [OF upd] show ?thesis
  proof
    assume "db' = db"
    with ok show ?thesis by simp
  next
    assume "\<exists>x. a = Some x
           \<and> x \<notin> set (map ip (filter (\<lambda>r. ips_id r \<noteq> i) (ips db)))
           \<and> db' = db\<lparr>ips := map (\<lambda>r. if ips_id r = i
                 then r\<lparr>ip := x, name := n, device_type := t, importance := m, remark := k\<rparr>
                 else r) (ips db)\<rparr>"
    then obtain x where nin: "x \<notin> set (map ip (filter (\<lambda>r. ips_id r \<noteq> i) (ips db)))"
      and db': "db' = db\<lparr>ips := map (\<lambda>r. if ips_id r = i
                 then r\<lparr>ip := x, name := n, device_type := t, importance := m, remark := k\<rparr>
                 else r) (ips db)\<rparr>"
      by blast
    have ids: "map ips_id (ips db') = map ips_id (ips db)"
      unfolding db' by (simp add: map_ips_id_update del: map_map)
    have adr: "distinct (map ip (ips db'))"
      unfolding db' using ok nin by (simp add: keys_ok_def distinct_map_update del: map_map)
    show ?thesis using ok ids adr by (simp add: keys_ok_def)
  qed
qed

lemma update_status_maps:
  "map ips_id (ips (update_status i s p c db)) = map ips_id (ips db)"
  "map ip (ips (update_status i s p c db)) = map ip (ips db)"
  "ping_history (update_status i s p c db) = ping_history db"
  "foreign_keys (update_status i s p c db) = foreign_keys db"
proof -
  show "map ips_id (ips (update_status i s p c db)) = map ips_id (ips db)"
    unfolding update_status_def by (induction "ips db") auto
  show "map ip (ips (update_status i s p c db)) = map ip (ips db)"
    unfolding update_status_def by (induction "ips db") auto
qed (simp_all add: update_status_def)

lemma update_status_keys: "keys_ok db \<Longrightarrow> keys_ok (update_status i s p c db)"
  by (simp add: keys_ok_def update_status_maps)

lemma delete_ips_keys: "keys_ok db \<Longrightarrow> keys_ok (delete_ips i db)"
  by (auto simp: keys_ok_def delete_ips_def distinct_map_filter)

lemma insert_ping_history_ips:
  "insert_ping_history t time s p db = Inr db' \<Longrightarrow> ips db' = ips db \<and> foreign_keys db' = foreign_keys db"
  by (auto simp: insert_ping_history_def Let_def split: option.splits if_splits)

lemma delete_ping_history_keys: "keys_ok db \<Longrightarrow> keys_ok (delete_ping_history i db)"
  by (simp add: keys_ok_def delete_ping_history_def)

lemma insert_ping_history_keys:
  "keys_ok db \<Longrightarrow> insert_ping_history t time s p db = Inr db' \<Longrightarrow> keys_ok db'"
  using insert_ping_history_ips [of t time s p db db'] by (simp add: keys_ok_def)

lemma exec_keys: "keys_ok db \<Longrightarrow> exec q db = Inr db' \<Longrightarrow> keys_ok db'"
  by (cases q)
    (auto intro: insert_ips_keys update_ips_keys update_status_keys delete_ips_keys
      insert_ping_history_keys delete_ping_history_keys)

lemma exec_all_keys: "keys_ok db \<Longrightarrow> keys_ok (exec_all qs db)"
  by (induction qs arbitrary: db) (auto split: sum.splits intro: exec_keys)

lemma schema_sql_keys: "keys_ok db \<Longrightarrow> keys_ok (schema_sql db)"
  unfolding schema_sql_def by (rule exec_all_keys) (simp add: keys_ok_def)

lemma session_Nil: "session [] db = db"
  by (simp add: session_def)

lemma session_Cons: "session (x # xs) db = session xs (session_step x db)"
  by (simp add: session_def)

lemma session_step_keys: "keys_ok db \<Longrightarrow> keys_ok (session_step x db)"
proof (cases x)
  case Connect
  assume "keys_ok db"
  with Connect show ?thesis by (simp add: keys_ok_def connect_def)
next
  case Script
  assume "keys_ok db"
  with Script show ?thesis by (simp add: schema_sql_keys)
next
  case (Statement q)
  assume "keys_ok db"
  from exec_all_keys [OF this, of "[q]"] Statement show ?thesis by simp
qed

lemma session_keys: "keys_ok db \<Longrightarrow> keys_ok (session steps db)"
  by (induction steps arbitrary: db) (simp_all add: session_Nil session_Cons session_step_keys)

lemma new_database_keys: "keys_ok new_database"
  by (simp add: keys_ok_def new_database_def)

subsection \<open>The references of ping_history\<close>

lemma insert_ips_refs:
  assumes "foreign_keys db" "no_orphans db" "insert_ips c a n t m r db = Inr db'"
  shows "foreign_keys db' \<and> no_orphans db'"
  using assms
  by (auto simp: insert_ips_def no_orphans_def Let_def split: option.splits conflict.splits if_splits)

lemma update_ips_refs:
  assumes "foreign_keys db" "no_orphans db" "update_ips i a n t m k db = Inr db'"
  shows "foreign_keys db' \<and> no_orphans db'"
proof -
  from update_ips_rows [OF assms(3)] show ?thesis
  proof
    assume "db' = db"
    with assms show ?thesis by simp
  next
    assume "\<exists>x. a = Some x
           \<and> x \<notin> set (map ip (filter (\<lambda>r. ips_id r \<noteq> i) (ips db)))
           \<and> db' = db\<lparr>ips := map (\<lambda>r. if ips_id r = i
                 then r\<lparr>ip := x, name := n, device_type := t, importance := m, remark := k\<rparr>
                 else r) (ips db)\<rparr>"
    then obtain x where db': "db' = db\<lparr>ips := map (\<lambda>r. if ips_id r = i
                 then r\<lparr>ip := x, name := n, device_type := t, importance := m, remark := k\<rparr>
                 else r) (ips db)\<rparr>"
      by blast
    have ids: "map ips_id (ips db') = map ips_id (ips db)"
      unfolding db' by (simp add: map_ips_id_update del: map_map)
    have rest: "foreign_keys db' = foreign_keys db" "ping_history db' = ping_history db"
      unfolding db' by simp_all
    show ?thesis using assms(1,2) ids rest by (simp add: no_orphans_def del: set_map)
  qed
qed

lemma update_status_refs:
  "foreign_keys db \<Longrightarrow> no_orphans db \<Longrightarrow>
   foreign_keys (update_status i s p c db) \<and> no_orphans (update_status i s p c db)"
  by (simp add: no_orphans_def update_status_maps del: set_map)

lemma delete_ips_refs:
  "foreign_keys db \<Longrightarrow> no_orphans db \<Longrightarrow>
   foreign_keys (delete_ips i db) \<and> no_orphans (delete_ips i db)"
  by (auto simp: delete_ips_def no_orphans_def)

lemma insert_ping_history_refs:
  assumes "foreign_keys db" "no_orphans db" "insert_ping_history t time s p db = Inr db'"
  shows "foreign_keys db' \<and> no_orphans db'"
  using assms
  by (auto simp: insert_ping_history_def no_orphans_def Let_def split: option.splits if_splits)

lemma delete_ping_history_refs:
  "foreign_keys db \<Longrightarrow> no_orphans db \<Longrightarrow>
   foreign_keys (delete_ping_history i db) \<and> no_orphans (delete_ping_history i db)"
  by (auto simp: delete_ping_history_def no_orphans_def)

lemma exec_refs:
  "foreign_keys db \<Longrightarrow> no_orphans db \<Longrightarrow> exec q db = Inr db' \<Longrightarrow>
   foreign_keys db' \<and> no_orphans db'"
  by (cases q)
    (auto dest: insert_ips_refs update_ips_refs insert_ping_history_refs
      simp: update_status_refs delete_ips_refs delete_ping_history_refs)

lemma exec_all_refs:
  "foreign_keys db \<Longrightarrow> no_orphans db \<Longrightarrow>
   foreign_keys (exec_all qs db) \<and> no_orphans (exec_all qs db)"
proof (induction qs arbitrary: db)
  case Nil
  then show ?case by simp
next
  case (Cons q qs)
  show ?case
  proof (cases "exec q db")
    case (Inl e)
    with Cons show ?thesis by simp
  next
    case (Inr db')
    from exec_refs [OF Cons.prems Inr] Cons.IH [of db'] Inr show ?thesis by simp
  qed
qed

lemma schema_sql_refs:
  "foreign_keys (schema_sql db)" "no_orphans db \<Longrightarrow> no_orphans (schema_sql db)"
proof -
  have a: "foreign_keys (db\<lparr>foreign_keys := True\<rparr>)" by simp
  assume "no_orphans db"
  then have b: "no_orphans (db\<lparr>foreign_keys := True\<rparr>)" by (simp add: no_orphans_def)
  show "no_orphans (schema_sql db)"
    unfolding schema_sql_def by (rule exec_all_refs [OF a b, THEN conjunct2])
next
  have keep: "foreign_keys d \<Longrightarrow> foreign_keys (exec_all qs d)" for qs d
  proof (induction qs arbitrary: d)
    case Nil
    then show ?case by simp
  next
    case (Cons q qs)
    have "exec q d = Inr d' \<Longrightarrow> foreign_keys d'" for d'
      using Cons.prems insert_ping_history_ips [of _ _ _ _ d d']
      by (cases q)
        (auto simp: insert_ips_def update_ips_def update_status_maps delete_ips_def
          delete_ping_history_def Let_def split: option.splits conflict.splits if_splits)
    with Cons show ?case by (auto split: sum.splits)
  qed
  show "foreign_keys (schema_sql db)"
    unfolding schema_sql_def by (rule keep) simp
qed

lemma delete_ips_cascade:
  assumes "foreign_keys db" "no_orphans db"
  shows "ping_history (delete_ips i db) = filter (\<lambda>h. ip_id h \<noteq> i) (ping_history db)"
proof (cases "i \<in> set (map ips_id (ips db))")
  case True
  with assms show ?thesis by (simp add: delete_ips_def)
next
  case False
  with assms have "\<forall>h \<in> set (ping_history db). ip_id h \<noteq> i"
    by (auto simp: no_orphans_def)
  then have "filter (\<lambda>h. ip_id h \<noteq> i) (ping_history db) = ping_history db"
    by (simp add: filter_id_conv)
  with False show ?thesis by (simp add: delete_ips_def)
qed

lemma delete_ips_rows: "ips (delete_ips i db) = filter (\<lambda>r. ips_id r \<noteq> i) (ips db)"
proof (cases "i \<in> set (map ips_id (ips db))")
  case True
  then show ?thesis by (simp add: delete_ips_def)
next
  case False
  then have "\<forall>r \<in> set (ips db). ips_id r \<noteq> i" by auto
  then have "filter (\<lambda>r. ips_id r \<noteq> i) (ips db) = ips db" by (simp add: filter_id_conv)
  with False show ?thesis by (simp add: delete_ips_def)
qed

text \<open>
  C3 (as amended). On a connection that enforces the foreign keys (line 1 of the
  schema script turns the pragma on for the connection that runs it) and on a database
  without orphans, after any sequence of statements: the pragma is still on, every
  row of \<^verbatim>\<open>ping_history\<close> refers to a row of \<^verbatim>\<open>ips\<close>, and
  \<^verbatim>\<open>DELETE FROM ips WHERE id = i\<close> removes the target \<open>i\<close> together with every row of
  \<^verbatim>\<open>ping_history\<close> whose \<^verbatim>\<open>ip_id\<close> is \<open>i\<close>, and no other row. The script leaves the
  pragma on and creates no orphan.
\<close>

theorem delete_target_cascades:
  assumes "foreign_keys db" and "no_orphans db" and "db' = exec_all qs db"
  shows "foreign_keys db' \<and> no_orphans db'
       \<and> ips (delete_ips i db') = filter (\<lambda>r. ips_id r \<noteq> i) (ips db')
       \<and> ping_history (delete_ips i db') = filter (\<lambda>h. ip_id h \<noteq> i) (ping_history db')
       \<and> no_orphans (delete_ips i db')
       \<and> foreign_keys (schema_sql d)
       \<and> (no_orphans d \<longrightarrow> no_orphans (schema_sql d))"
proof -
  have ok: "foreign_keys db'" "no_orphans db'"
    unfolding assms(3) using exec_all_refs [OF assms(1,2), of qs] by simp_all
  from ok delete_ips_cascade [OF ok, of i] delete_ips_rows [of i db'] delete_ips_refs [OF ok, of i]
    schema_sql_refs [of d]
  show ?thesis by simp
qed

lemma schema_sql_new:
  "schema_sql new_database =
     \<lparr>foreign_keys = True,
      ips = [\<lparr>ips_id = 1, ip = ''8.8.8.8'', name = Some ''Google DNS'', device_type = Some ''other'',
               importance = Some ''important'', remark = Some ''Public DNS'', last_status = None,
               last_ping_ms = None, last_checked = None\<rparr>,
             \<lparr>ips_id = 2, ip = ''1.1.1.1'', name = Some ''Cloudflare DNS'', device_type = Some ''other'',
               importance = Some ''important'', remark = Some ''Public DNS'', last_status = None,
               last_ping_ms = None, last_checked = None\<rparr>],
      ips_seq = 2, ping_history = [], ping_history_seq = 0\<rparr>"
  by (simp add: schema_sql_def new_database_def insert_ips_def next_rowid_def)

lemma sample_db:
  "exec_all sample_stmts (schema_sql new_database) =
     \<lparr>foreign_keys = True,
      ips = [\<lparr>ips_id = 1, ip = ''8.8.8.8'', name = Some ''Google DNS'', device_type = Some ''other'',
               importance = Some ''important'', remark = Some ''Public DNS'', last_status = None,
               last_ping_ms = None, last_checked = None\<rparr>,
             \<lparr>ips_id = 2, ip = ''1.1.1.1'', name = Some ''Cloudflare DNS'', device_type = Some ''other'',
               importance = Some ''important'', remark = Some ''Public DNS'', last_status = None,
               last_ping_ms = None, last_checked = None\<rparr>],
      ips_seq = 2,
      ping_history =
        [\<lparr>ph_id = 1, ip_id = 1, ts = ''2024-05-01T10:00:00'', status = ''up'', ping_ms = Some 12\<rparr>,
         \<lparr>ph_id = 2, ip_id = 2, ts = ''2024-05-01T10:00:00'', status = ''down'', ping_ms = None\<rparr>,
         \<lparr>ph_id = 3, ip_id = 1, ts = ''2024-05-01T10:00:30'', status = ''up'', ping_ms = Some 11\<rparr>],
      ping_history_seq = 3\<rparr>"
  by (simp add: schema_sql_new sample_stmts_def insert_ping_history_def next_rowid_def)

theorem delete_target_cascades_example:
  "foreign_keys (schema_sql new_database) \<and> no_orphans (schema_sql new_database)
   \<and> no_orphans (exec_all sample_stmts (schema_sql new_database))
   \<and> map ip (ips (delete_ips 1 (exec_all sample_stmts (schema_sql new_database)))) = [''1.1.1.1'']
   \<and> ping_history (delete_ips 1 (exec_all sample_stmts (schema_sql new_database)))
       = [\<lparr>ph_id = 2, ip_id = 2, ts = ''2024-05-01T10:00:00'', status = ''down'', ping_ms = None\<rparr>]
   \<and> no_orphans (delete_ips 1 (exec_all sample_stmts (schema_sql new_database)))"
proof -
  have a: "foreign_keys (schema_sql new_database)" by (simp add: schema_sql_new)
  have b: "no_orphans (schema_sql new_database)" by (simp add: schema_sql_new no_orphans_def)
  from delete_target_cascades [OF a b, of "exec_all sample_stmts (schema_sql new_database)" sample_stmts 1 new_database] a b
  show ?thesis by (simp add: sample_db)
qed

text \<open>
  C3 as stated holds on every connection. The script is run, three checks are
  recorded, a new connection is opened (the pragma is off) and target 1 is deleted
  there: its two rows of \<^verbatim>\<open>ping_history\<close> stay behind.
\<close>

theorem delete_on_new_connection_leaves_orphans:
  "\<not> no_orphans (session (Script # map Statement sample_stmts @ [Connect, Statement (Delete_ips 1)])
                    new_database)"
  by (simp add: session_def sample_stmts_def schema_sql_new insert_ping_history_def next_rowid_def
      connect_def delete_ips_def no_orphans_def)

text \<open>
  C4 (as amended). After any sequence of connections, runs of the schema script and
  statements on a new database, no two rows of \<^verbatim>\<open>ips\<close> have the same \<^verbatim>\<open>ip\<close>. An
  attempt to create a target with a stored address stores nothing: the
  \<^verbatim>\<open>INSERT OR IGNORE\<close> of the script skips the row without an error and only advances
  the \<^verbatim>\<open>AUTOINCREMENT\<close> counter, and a plain \<^verbatim>\<open>INSERT\<close> fails with the \<^verbatim>\<open>UNIQUE\<close>
  conflict and changes nothing. An \<^verbatim>\<open>UPDATE\<close> that would give a target the address of
  another one fails with the same conflict.
\<close>

theorem address_is_unique:
  assumes "db = session steps new_database"
  shows "distinct (map ip (ips db))
       \<and> (a \<in> set (map ip (ips db)) \<longrightarrow>
            insert_ips Ignore (Some a) v_name v_type v_imp v_remark db
              = Inr (db\<lparr>ips_seq := next_rowid (ips_seq db) (map ips_id (ips db))\<rparr>)
            \<and> ips (exec_all [Insert_ips Ignore (Some a) v_name v_type v_imp v_remark] db) = ips db
            \<and> insert_ips Abort (Some a) v_name v_type v_imp v_remark db = Inl Unique_failed
            \<and> exec_all [Insert_ips Abort (Some a) v_name v_type v_imp v_remark] db = db)
       \<and> (a \<in> set (map ip (filter (\<lambda>r. ips_id r \<noteq> i) (ips db))) \<and> i \<in> set (map ips_id (ips db)) \<longrightarrow>
            update_ips i (Some a) v_name v_type v_imp v_remark db = Inl Unique_failed)"
proof -
  have "keys_ok db" unfolding assms by (rule session_keys [OF new_database_keys])
  then have "distinct (map ip (ips db))" by (simp add: keys_ok_def)
  then show ?thesis by (simp add: insert_ips_def update_ips_def Let_def)
qed

text \<open>
  C4 as stated has every duplicate creation rejected as a conflict. The statement of
  lines 25 to 28, run for an address that is stored, raises none.
\<close>

theorem insert_or_ignore_raises_no_conflict:
  "\<not> (\<exists>e. exec (Insert_ips Ignore (Some ''8.8.8.8'') (Some ''Google DNS'') (Some ''other'')
               (Some ''important'') (Some ''Public DNS'')) (schema_sql new_database) = Inl e)"
  by (simp add: schema_sql_new insert_ips_def)

lemma script_again:
  assumes "map ip (ips db) = [''8.8.8.8'', ''1.1.1.1'']" and "map ips_id (ips db) = [1, 2]"
    and "ips_seq db = 2"
  shows "schema_sql (connect db) = db\<lparr>foreign_keys := True, ips_seq := 4\<rparr>"
  using assms by (simp add: schema_sql_def connect_def insert_ips_def next_rowid_def)

lemma sample_session:
  "session [Script, Connect, Script] new_database = (schema_sql new_database)\<lparr>ips_seq := 4\<rparr>"
proof -
  have "schema_sql (connect (schema_sql new_database))
          = (schema_sql new_database)\<lparr>foreign_keys := True, ips_seq := 4\<rparr>"
    by (rule script_again) (simp_all add: schema_sql_new)
  also have "\<dots> = (schema_sql new_database)\<lparr>ips_seq := 4\<rparr>"
    by (simp add: schema_sql_new)
  finally show ?thesis by (simp add: session_def)
qed

theorem address_is_unique_example:
  "map ip (ips (session [Script, Connect, Script] new_database)) = [''8.8.8.8'', ''1.1.1.1'']
   \<and> ips_seq (session [Script, Connect, Script] new_database) = 4
   \<and> insert_ips Abort (Some ''8.8.8.8'') (Some ''again'') None None None
        (session [Script, Connect, Script] new_database) = Inl Unique_failed
   \<and> ips (exec_all [Insert_ips Ignore (Some ''8.8.8.8'') (Some ''again'') None None None]
        (session [Script, Connect, Script] new_database))
       = ips (session [Script, Connect, Script] new_database)
   \<and> update_ips 2 (Some ''8.8.8.8'') None None None None
        (session [Script, Connect, Script] new_database) = Inl Unique_failed"
  using address_is_unique [of "session [Script, Connect, Script] new_database" "[Script, Connect, Script]"
               "''8.8.8.8''" "Some ''again''" None None None 2]
        address_is_unique [of "session [Script, Connect, Script] new_database" "[Script, Connect, Script]"
               "''8.8.8.8''" None None None None 2]
  by (simp add: sample_session schema_sql_new)

section \<open>Properties of the written history\<close>

lemma exec_all_append: "exec_all (qs @ qs') db = exec_all qs' (exec_all qs db)"
  by (induction qs arbitrary: db) (auto split: sum.splits)

lemma probe_cases:
  "(fst (probe timeout a) = ''up'' \<and> snd (probe timeout a) \<noteq> None)
   \<or> (fst (probe timeout a) = ''down'' \<and> snd (probe timeout a) = None)"
  by (cases a) (auto simp: probe_def)

lemma insert_ips_history: "insert_ips c a n t m r db = Inr db' \<Longrightarrow> set (ping_history db') = set (ping_history db)"
  by (auto simp: insert_ips_def Let_def split: option.splits conflict.splits if_splits)

lemma update_ips_history: "update_ips i a n t m r db = Inr db' \<Longrightarrow> ping_history db' = ping_history db"
  by (auto simp: update_ips_def split: option.splits if_splits)

lemma delete_ips_history: "set (ping_history (delete_ips i db)) \<subseteq> set (ping_history db)"
  by (auto simp: delete_ips_def)

lemma update_status_history: "ping_history (update_status i s p c db) = ping_history db"
  by (simp add: update_status_def)

lemma insert_ping_history_rows:
  "insert_ping_history (Some t) (Some time) (Some s) p db = Inr db' \<Longrightarrow>
   \<exists>i. ping_history db' = ping_history db @ [\<lparr>ph_id = i, ip_id = t, ts = time, status = s, ping_ms = p\<rparr>]"
  by (auto simp: insert_ping_history_def Let_def split: if_splits)

lemma action_keeps_history:
  assumes "\<forall>h \<in> set (ping_history db). ping_only_when_up h"
  shows "\<forall>h \<in> set (ping_history (exec_all (action_stmts timeout act) db)). ping_only_when_up h"
proof (cases act)
  case (Register a n t m r)
  then show ?thesis using assms
    by (auto split: sum.splits dest!: insert_ips_history)
next
  case (Edit i a n t m r)
  then show ?thesis using assms
    by (auto split: sum.splits dest!: update_ips_history)
next
  case (Remove i)
  then show ?thesis using assms delete_ips_history [of i db] by auto
next
  case (Check i time a)
  show ?thesis
  proof (cases "insert_ping_history (Some i) (Some time) (Some (fst (probe timeout a))) (snd (probe timeout a)) db")
    case (Inl e)
    then show ?thesis using assms Check by (simp add: record_check_def update_status_history)
  next
    case (Inr db')
    from insert_ping_history_rows [OF Inr] obtain k where
      "ping_history db' = ping_history db @ [\<lparr>ph_id = k, ip_id = i, ts = time, status = fst (probe timeout a), ping_ms = snd (probe timeout a)\<rparr>]"
      by blast
    then show ?thesis using assms Check Inr probe_cases [of timeout a]
      by (auto simp: record_check_def update_status_history ping_only_when_up_def)
  qed
qed

lemma perform_Nil: "perform timeout [] db = db"
  by (simp add: perform_def)

lemma perform_Cons:
  "perform timeout (act # acts) db = perform timeout acts (exec_all (action_stmts timeout act) db)"
  by (simp add: perform_def exec_all_append)

lemma perform_keeps_history:
  "\<forall>h \<in> set (ping_history db). ping_only_when_up h \<Longrightarrow>
   \<forall>h \<in> set (ping_history (perform timeout acts db)). ping_only_when_up h"
proof (induction acts arbitrary: db)
  case Nil
  then show ?case by (simp add: perform_Nil)
next
  case (Cons act acts)
  show ?case unfolding perform_Cons
    by (rule Cons.IH) (rule action_keeps_history [OF Cons.prems])
qed

lemma schema_sql_history: "ping_history (schema_sql new_database) = []"
  by (simp add: schema_sql_new)

text \<open>
  C7. Every row of \<^verbatim>\<open>ping_history\<close> written through the lifecycle of the
  specification (targets registered, edited and removed; one row appended per probe)
  has a latency only with the status \<^verbatim>\<open>up\<close>, and every row with the status \<^verbatim>\<open>down\<close>
  has none. In a rendered row the sixth cell shows \<^verbatim>\<open>-\<close> when \<^verbatim>\<open>last_ping_ms\<close> is
  \<^verbatim>\<open>null\<close>, and the printed number when it is a number.
\<close>

theorem ping_only_with_status_up:
  assumes "db = perform timeout acts (schema_sql new_database)"
    and "render_row rt entry = Inr tr"
  shows "(\<forall>h \<in> set (ping_history db).
            (ping_ms h \<noteq> None \<longrightarrow> status h = ''up'') \<and> (status h = ''down'' \<longrightarrow> ping_ms h = None))
       \<and> (get_prop entry ''last_ping_ms'' = Inr JNull \<longrightarrow>
            childNodes tr ! 5 = Element ''td'' [] [] [Text ''-''])
       \<and> (get_prop entry ''last_ping_ms'' = Inr (JNum x) \<longrightarrow>
            childNodes tr ! 5 = Element ''td'' [] [] (text_nodes (number_to_string rt x)))"
proof -
  have "\<forall>h \<in> set (ping_history (schema_sql new_database)). ping_only_when_up h"
    by (simp add: schema_sql_history)
  from perform_keeps_history [OF this, of timeout acts]
  have "\<forall>h \<in> set (ping_history db). ping_only_when_up h" by (simp add: assms(1))
  then have "\<forall>h \<in> set (ping_history db).
            (ping_ms h \<noteq> None \<longrightarrow> status h = ''up'') \<and> (status h = ''down'' \<longrightarrow> ping_ms h = None)"
    by (auto simp: ping_only_when_up_def)
  moreover have "tdPing rt entry = Inr (childNodes tr ! 5)"
    by (rule render_row_cells(1) [OF assms(2)])
  ultimately show ?thesis
    using tdPing_null [of entry rt] tdPing_number [of entry x rt] by auto
qed

lemma sample_history:
  "ping_history (perform 2000 sample_actions (schema_sql new_database)) =
     [\<lparr>ph_id = 1, ip_id = 1, ts = ''2024-05-01T10:00:00'', status = ''up'', ping_ms = Some 12\<rparr>,
      \<lparr>ph_id = 2, ip_id = 2, ts = ''2024-05-01T10:00:00'', status = ''down'', ping_ms = None\<rparr>,
      \<lparr>ph_id = 3, ip_id = 1, ts = ''2024-05-01T10:00:30'', status = ''down'', ping_ms = None\<rparr>]"
  by (simp add: perform_def sample_actions_def record_check_def probe_def schema_sql_new
      insert_ping_history_def update_status_def next_rowid_def)

theorem ping_only_with_status_up_example:
  "ping_history (perform 2000 sample_actions (schema_sql new_database)) =
     [\<lparr>ph_id = 1, ip_id = 1, ts = ''2024-05-01T10:00:00'', status = ''up'', ping_ms = Some 12\<rparr>,
      \<lparr>ph_id = 2, ip_id = 2, ts = ''2024-05-01T10:00:00'', status = ''down'', ping_ms = None\<rparr>,
      \<lparr>ph_id = 3, ip_id = 1, ts = ''2024-05-01T10:00:30'', status = ''down'', ping_ms = None\<rparr>]
   \<and> get_prop sample_entry ''last_ping_ms'' = Inr JNull
   \<and> (\<exists>tr. render_row stub_runtime sample_entry = Inr tr
          \<and> childNodes tr ! 5 = Element ''td'' [] [] [Text ''-''])"
  using ping_only_with_status_up
          [OF refl render_sample_entry, of 2000 sample_actions]
  by (simp add: sample_history sample_reads render_sample_entry)

text \<open>
  The schema alone does not relate the two columns: a row with the status \<^verbatim>\<open>down\<close>
  and a latency is accepted by the table. The invariant is the writer's.
\<close>

lemma schema_admits_down_with_ping:
  "\<exists>db. exec (Insert_ping_history (Some 1) (Some ''2024-05-01T10:00:00'') (Some ''down'') (Some 5))
           (schema_sql new_database) = Inr db
        \<and> \<not> list_all ping_only_when_up (ping_history db)"
  by (simp add: schema_sql_new insert_ping_history_def next_rowid_def ping_only_when_up_def)

section \<open>Properties of the aggregator\<close>

lemma round_half_away_bounds:
  "0 \<le> x \<Longrightarrow> x - 1 / 2 < of_int (round_half_away x) \<and> of_int (round_half_away x) \<le> x + 1 / 2"
  "x < 0 \<Longrightarrow> x - 1 / 2 \<le> of_int (round_half_away x) \<and> of_int (round_half_away x) < x + 1 / 2"
proof -
  assume "0 \<le> x"
  then have r: "round_half_away x = \<lfloor>x + 1 / 2\<rfloor>" by (simp add: round_half_away_def)
  have "of_int \<lfloor>x + 1 / 2\<rfloor> \<le> x + 1 / 2" by (rule of_int_floor_le)
  moreover have "x + 1 / 2 < of_int \<lfloor>x + 1 / 2\<rfloor> + 1" using floor_correct [of "x + 1 / 2"] by simp
  ultimately show "x - 1 / 2 < of_int (round_half_away x) \<and> of_int (round_half_away x) \<le> x + 1 / 2"
    unfolding r by linarith
next
  assume "x < 0"
  then have r: "round_half_away x = \<lceil>x - 1 / 2\<rceil>" by (simp add: round_half_away_def)
  have "x - 1 / 2 \<le> of_int \<lceil>x - 1 / 2\<rceil>" by (rule le_of_int_ceiling)
  moreover have "of_int \<lceil>x - 1 / 2\<rceil> - 1 < x - 1 / 2" by (rule ceiling_correct [THEN conjunct1])
  ultimately show "x - 1 / 2 \<le> of_int (round_half_away x) \<and> of_int (round_half_away x) < x + 1 / 2"
    unfolding r by linarith
qed

lemma round_half_away_nearest: "\<bar>of_int (round_half_away x) - x\<bar> \<le> 1 / 2"
proof (cases "0 \<le> x")
  case True
  from round_half_away_bounds(1) [OF True] show ?thesis by linarith
next
  case False
  then have "x < 0" by simp
  from round_half_away_bounds(2) [OF this] show ?thesis by linarith
qed

lemma round_half_away_tie:
  assumes "\<bar>of_int (round_half_away x) - x\<bar> = 1 / 2"
  shows "\<bar>x\<bar> < \<bar>of_int (round_half_away x)\<bar>"
proof (cases "0 \<le> x")
  case True
  from round_half_away_bounds(1) [OF True] assms True show ?thesis by linarith
next
  case False
  then have neg: "x < 0" by simp
  from round_half_away_bounds(2) [OF neg] assms neg show ?thesis by linarith
qed

lemma round_half_away_range:
  assumes "0 \<le> x" "x \<le> 100"
  shows "0 \<le> round_half_away x \<and> round_half_away x \<le> 100"
proof -
  have "\<lfloor>x + 1 / 2\<rfloor> \<le> 100" using assms by (simp add: floor_le_iff)
  moreover have "0 \<le> \<lfloor>x + 1 / 2\<rfloor>" using assms by (simp add: le_floor_iff)
  ultimately show ?thesis using assms by (simp add: round_half_away_def)
qed

lemma up_count_le: "up_count rs \<le> length rs"
  by (simp add: up_count_def)

lemma ratio_range:
  assumes "rs \<noteq> []"
  shows "0 \<le> (100 * of_nat (up_count rs) / of_nat (length rs) :: rat)"
    and "(100 * of_nat (up_count rs) / of_nat (length rs) :: rat) \<le> 100"
proof -
  show "0 \<le> (100 * of_nat (up_count rs) / of_nat (length rs) :: rat)" by simp
  have "(of_nat (up_count rs) :: rat) \<le> of_nat (length rs)"
    using up_count_le [of rs] by (simp only: of_nat_le_iff)
  moreover have "0 < (of_nat (length rs) :: rat)" using assms by simp
  ultimately show "(100 * of_nat (up_count rs) / of_nat (length rs) :: rat) \<le> 100"
    by (simp add: divide_le_eq)
qed

lemma windowStats_Some:
  "take w rs \<noteq> [] \<Longrightarrow>
   windowStats rs w = Some (round_half_away (100 * of_nat (up_count (take w rs)) / of_nat (length (take w rs))))"
  by (simp add: windowStats_def Let_def)

lemma last5_two_of_three:
  assumes "length rs = 3" "up_count rs = 2"
  shows "last5 rs = Some 67"
proof -
  have "take 5 rs = rs" using assms by simp
  moreover have "rs \<noteq> []" using assms by auto
  moreover have "round_half_away (100 * 2 / 3) = 67" by (simp add: round_half_away_def floor_eq_iff)
  ultimately show ?thesis using assms by (simp add: last5_def windowStats_def)
qed

text \<open>
  C2. For every sequence of records and every window size with at least one record
  considered, \<open>windowStats\<close> returns the integer nearest to
  \<open>100 * count(up) / count(considered)\<close>, between 0 and 100, and at a tie the one
  farther from zero. With exactly three records, two \<^verbatim>\<open>up\<close> and one \<^verbatim>\<open>down\<close>,
  \<open>last5\<close> is 67.
\<close>

theorem windowStats_rounds_half_away:
  "(take w records \<noteq> [] \<longrightarrow>
      (\<exists>p. windowStats records w = Some p \<and> 0 \<le> p \<and> p \<le> 100
         \<and> \<bar>of_int p - 100 * of_nat (up_count (take w records)) / of_nat (length (take w records))\<bar>
             \<le> (1 / 2 :: rat)
         \<and> (\<bar>of_int p - 100 * of_nat (up_count (take w records)) / of_nat (length (take w records))\<bar>
             = (1 / 2 :: rat)
            \<longrightarrow> \<bar>100 * of_nat (up_count (take w records)) / of_nat (length (take w records)) :: rat\<bar>
                  < \<bar>of_int p\<bar>)))
   \<and> (length records = 3 \<and> length (filter (\<lambda>h. status h = ''up'') records) = 2
        \<and> length (filter (\<lambda>h. status h = ''down'') records) = 1 \<longrightarrow> last5 records = Some 67)"
proof -
  let ?q = "100 * of_nat (up_count (take w records)) / of_nat (length (take w records)) :: rat"
  have first: "take w records \<noteq> [] \<longrightarrow>
      (\<exists>p. windowStats records w = Some p \<and> 0 \<le> p \<and> p \<le> 100
         \<and> \<bar>of_int p - ?q\<bar> \<le> (1 / 2 :: rat)
         \<and> (\<bar>of_int p - ?q\<bar> = (1 / 2 :: rat) \<longrightarrow> \<bar>?q\<bar> < \<bar>of_int p\<bar>))"
  proof
    assume ne: "take w records \<noteq> []"
    have "windowStats records w = Some (round_half_away ?q)"
      by (rule windowStats_Some [OF ne])
    moreover have "0 \<le> round_half_away ?q \<and> round_half_away ?q \<le> 100"
      by (rule round_half_away_range [OF ratio_range [OF ne]])
    moreover have "\<bar>of_int (round_half_away ?q) - ?q\<bar> \<le> 1 / 2"
      by (rule round_half_away_nearest)
    moreover have "\<bar>of_int (round_half_away ?q) - ?q\<bar> = 1 / 2 \<longrightarrow> \<bar>?q\<bar> < \<bar>of_int (round_half_away ?q)\<bar>"
      using round_half_away_tie [of ?q] by blast
    ultimately show "\<exists>p. windowStats records w = Some p \<and> 0 \<le> p \<and> p \<le> 100
         \<and> \<bar>of_int p - ?q\<bar> \<le> (1 / 2 :: rat)
         \<and> (\<bar>of_int p - ?q\<bar> = (1 / 2 :: rat) \<longrightarrow> \<bar>?q\<bar> < \<bar>of_int p\<bar>)"
      by blast
  qed
  have second: "length records = 3 \<and> length (filter (\<lambda>h. status h = ''up'') records) = 2
        \<and> length (filter (\<lambda>h. status h = ''down'') records) = 1 \<longrightarrow> last5 records = Some 67"
    using last5_two_of_three [of records] by (simp add: up_count_def)
  from first second show ?thesis by blast
qed

theorem windowStats_example:
  "take 5 sample_records \<noteq> [] \<and> length sample_records = 3
   \<and> length (filter (\<lambda>h. status h = ''up'') sample_records) = 2
   \<and> length (filter (\<lambda>h. status h = ''down'') sample_records) = 1
   \<and> last5 sample_records = Some 67
   \<and> (\<exists>p. windowStats sample_records 2 = Some p \<and> 0 \<le> p \<and> p \<le> 100)"
  using windowStats_rounds_half_away [of 5 sample_records] windowStats_rounds_half_away [of 2 sample_records]
  by (auto simp: sample_records_def)

end
